theory Spec2Isabelle
  imports Main "HOL-Library.AList" "HOL-Library.Word"
begin

section \<open>Data model\<close>

subsection \<open>The sheet, as the frame that fetch_sheet_as_df hands over\<close>

text \<open>
  The notebook reads LIBRARY_UNIFIED through \<^verbatim>\<open>fetch_sheet_as_df\<close>, whose code is
  not part of the sources; the frame it returns is an input of the model: a header of
  column names and rows of string cells, aligned with the header.
\<close>

record dataframe =
  columns :: "string list"
  rows :: "string list list"

text \<open>
  \<^verbatim>\<open>row.get(key, default)\<close> on a row of the frame: the cell under the label, or the
  default when the frame has no such label. This is the value for a label that occurs
  once in the header. Under a repeated label pandas hands back the cells as a Series,
  whose \<^verbatim>\<open>str()\<close> is a printout; the statements about the driver are made for frames
  whose labels are distinct.
\<close>

definition row_get :: "string list \<Rightarrow> string list \<Rightarrow> string \<Rightarrow> string \<Rightarrow> string" where
  "row_get cols row key dflt = (case map_of (zip cols row) key of None \<Rightarrow> dflt | Some v \<Rightarrow> v)"

text \<open>
  \<^verbatim>\<open>str.strip()\<close> without argument removes leading and trailing white space. For the
  code points a \<^typ>\<open>char\<close> holds, Python's white space is 9 to 13, 28 to 32, 133 and 160.
\<close>

definition is_space :: "char \<Rightarrow> bool" where
  "is_space c = (let n = (of_char c :: nat) in
     (9 \<le> n \<and> n \<le> 13) \<or> (28 \<le> n \<and> n \<le> 32) \<or> n = 133 \<or> n = 160)"

definition strip :: "string \<Rightarrow> string" where
  "strip s = rev (dropWhile is_space (rev (dropWhile is_space s)))"

subsection \<open>The vector store\<close>

text \<open>
  A point of the collection has an id and a payload. The payload's \<^verbatim>\<open>metadata\<close> entry is
  a dictionary of scalar values when present; the payload's other keys are kept apart.
  The dictionary is an association list read with \<^const>\<open>map_of\<close> and written with
  \<^const>\<open>AList.update\<close> (assignment to a key).
\<close>

datatype jvalue = JNull | JBool bool | JNum int | JStr string

type_synonym metadata = "(string \<times> jvalue) list"

record payload =
  metadata :: "metadata option"
  other_keys :: "(string \<times> jvalue) list"

record point =
  pt_id :: nat
  pt_payload :: payload

text \<open>
  The collection, in the ascending order of ids in which \<^verbatim>\<open>scroll\<close> lists it, with the
  trace of the calls the client has served: \<^verbatim>\<open>scroll\<close> requests (filter value and
  offset) and \<^verbatim>\<open>set_payload\<close> requests (point id and the metadata written).
\<close>

record collection =
  points :: "point list"
  reads :: "(string \<times> nat option) list"
  writes :: "(nat \<times> metadata) list"

text \<open>Each id once, ascending: what the store guarantees of its listing.\<close>

definition wf_collection :: "collection \<Rightarrow> bool" where
  "wf_collection q = sorted_wrt (<) (map pt_id (points q))"

text \<open>
  The scroll filter of the source: \<^verbatim>\<open>FieldCondition(key="metadata.pdf_id",
  match=MatchValue(value=pdf_id))\<close>.
\<close>

definition matches_pdf_id :: "string \<Rightarrow> point \<Rightarrow> bool" where
  "matches_pdf_id v p =
     (case metadata (pt_payload p) of None \<Rightarrow> False
      | Some md \<Rightarrow> map_of md ''pdf_id'' = Some (JStr v))"

definition from_offset :: "nat option \<Rightarrow> point \<Rightarrow> bool" where
  "from_offset off p = (case off of None \<Rightarrow> True | Some a \<Rightarrow> a \<le> pt_id p)"

text \<open>
  \<^verbatim>\<open>scroll(scroll_filter, limit, offset)\<close>: the matching points from the offset id on, at
  most \<^verbatim>\<open>limit\<close> of them, and the id of the next matching point (or None at the end).
\<close>

definition scroll ::
  "collection \<Rightarrow> string \<Rightarrow> nat \<Rightarrow> nat option \<Rightarrow> (point list \<times> nat option) \<times> collection" where
  "scroll q v limit off =
     (let cand = filter (\<lambda>p. from_offset off p \<and> matches_pdf_id v p) (points q);
          nxt = (if limit < length cand then Some (pt_id (cand ! limit)) else None)
      in ((take limit cand, nxt), q\<lparr>reads := reads q @ [(v, off)]\<rparr>))"

text \<open>
  \<^verbatim>\<open>set_payload(payload={"metadata": md}, points=[i])\<close>: the payload key
  \<^verbatim>\<open>metadata\<close> of the point with id \<open>i\<close> is replaced, the other keys stay.
\<close>

definition set_payload :: "collection \<Rightarrow> metadata \<Rightarrow> nat \<Rightarrow> collection" where
  "set_payload q md i =
     q\<lparr>points := map (\<lambda>p. if pt_id p = i
                            then p\<lparr>pt_payload := (pt_payload p)\<lparr>metadata := Some md\<rparr>\<rparr>
                            else p) (points q),
       writes := writes q @ [(i, md)]\<rparr>"

subsection \<open>The three stores\<close>

text \<open>
  The tabular store, the file store (file id and file name of each file) and the vector
  store. The repair driver is handed the sheets client and the vector-store client.
\<close>

record world =
  tabular :: dataframe
  files :: "(string \<times> string) list"
  vectors :: collection

section \<open>Repair driver: update_qdrant_file_ids_for_live_rows\<close>

text \<open>
  The exceptions the modelled code meets. \<^verbatim>\<open>except Exception\<close> catches every class
  but those that derive from BaseException alone (KeyboardInterrupt here).
\<close>

datatype py_exception =
  KeyError string | OSError string | ValueError string | MemoryError | KeyboardInterrupt

definition is_Exception :: "py_exception \<Rightarrow> bool" where
  "is_Exception e = (e \<noteq> KeyboardInterrupt)"

record patched_entry =
  pdf_id :: string
  point_id :: nat
  new_gcp_file_id :: string

type_synonym repair_state = "collection \<times> patched_entry list"

text \<open>
  The body of \<^verbatim>\<open>for point in points\<close>, with \<^verbatim>\<open>point.payload.get("metadata", {})\<close>
  first. The metadata that is written back is the one of the point as the scroll
  returned it, with \<^verbatim>\<open>gcp_file_id\<close> assigned.
\<close>

definition get_metadata :: "point \<Rightarrow> metadata" where
  "get_metadata pt = (case metadata (pt_payload pt) of None \<Rightarrow> [] | Some m \<Rightarrow> m)"

definition patch_point :: "string \<Rightarrow> string \<Rightarrow> repair_state \<Rightarrow> point \<Rightarrow> repair_state" where
  "patch_point pdf gcp st pt =
     (let md = get_metadata pt in
      if map_of md ''gcp_file_id'' \<noteq> Some (JStr gcp)
      then (set_payload (fst st) (AList.update ''gcp_file_id'' (JStr gcp) md) (pt_id pt),
            snd st @ [\<lparr>pdf_id = pdf, point_id = pt_id pt, new_gcp_file_id = gcp\<rparr>])
      else st)"

text \<open>
  The \<^verbatim>\<open>while True\<close> loop over the pages of one row, 100 points a page. It ends on an
  empty page or on a page without next offset; \<open>None\<close> stands for a loop that never ends.
\<close>

partial_function (option) scroll_loop ::
  "string \<Rightarrow> string \<Rightarrow> nat option \<Rightarrow> repair_state \<Rightarrow> repair_state option" where
  "scroll_loop pdf gcp off st =
     (case scroll (fst st) pdf 100 off of
        ((pts, nxt), q) \<Rightarrow>
          if pts = [] then Some (q, snd st)
          else (let st' = foldl (patch_point pdf gcp) (q, snd st) pts in
                if nxt = None then Some st' else scroll_loop pdf gcp nxt st'))"

text \<open>The body of \<^verbatim>\<open>for _, row in live_df.iterrows()\<close>.\<close>

definition repair_row :: "string list \<Rightarrow> string list \<Rightarrow> repair_state \<Rightarrow> repair_state option" where
  "repair_row cols row st =
     (let pdf = strip (row_get cols row ''pdf_id'' '''');
          gcp = strip (row_get cols row ''gcp_file_id'' '''')
      in if pdf = [] \<or> gcp = [] then Some st
         else scroll_loop pdf gcp None st)"

fun repair_rows :: "string list \<Rightarrow> string list list \<Rightarrow> repair_state \<Rightarrow> repair_state option" where
  "repair_rows cols [] st = Some st"
| "repair_rows cols (row # rest) st =
     (case repair_row cols row st of None \<Rightarrow> None | Some st' \<Rightarrow> repair_rows cols rest st')"

text \<open>
  \<^verbatim>\<open>df[df["status"] == "live"]\<close>, for a frame that has the column once. Without the
  column the selection raises KeyError, with the label repeated it raises ValueError;
  the driver below has both branches.
\<close>

definition live_rows :: "dataframe \<Rightarrow> string list list" where
  "live_rows df = filter (\<lambda>r. map_of (zip (columns df) r) ''status'' = Some ''live'') (rows df)"

text \<open>
  The driver. A frame without \<^verbatim>\<open>status\<close> column raises KeyError and one with the label
  repeated raises ValueError; with no live row the (empty) frame of live rows is returned
  at once; otherwise the frame built from the \<^verbatim>\<open>updated\<close> list is. Both frames are
  given as their list of records. The message of the ValueError and the log lines of
  the driver (a count of the updates) are not part of the model.
\<close>

definition update_qdrant_file_ids_for_live_rows ::
  "world \<Rightarrow> (py_exception + world \<times> patched_entry list) option" where
  "update_qdrant_file_ids_for_live_rows w =
     (let df = tabular w in
      if ''status'' \<notin> set (columns df) then Some (Inl (KeyError ''status''))
      else if 1 < length (filter (\<lambda>c. c = ''status'') (columns df))
      then Some (Inl (ValueError ''status''))
      else (let live_df = live_rows df in
            if live_df = [] then Some (Inr (w, []))
            else (case repair_rows (columns df) live_df (vectors w, []) of
                    None \<Rightarrow> None
                  | Some (q, updated) \<Rightarrow> Some (Inr (w\<lparr>vectors := q\<rparr>, updated)))))"

subsection \<open>What the driver is to do, in the words of its contract\<close>

text \<open>
  The identifier and the file id of each live row, as the driver reads them: trimmed.
\<close>

definition live_keys :: "dataframe \<Rightarrow> (string \<times> string) list" where
  "live_keys df =
     map (\<lambda>r. (strip (row_get (columns df) r ''pdf_id'' ''''),
               strip (row_get (columns df) r ''gcp_file_id'' ''''))) (live_rows df)"

definition gcp_differs :: "string \<Rightarrow> point \<Rightarrow> bool" where
  "gcp_differs gcp p = (map_of (get_metadata p) ''gcp_file_id'' \<noteq> Some (JStr gcp))"

text \<open>A point to patch for a row: its identifier matches and its file id differs.\<close>

definition mismatched :: "string \<Rightarrow> string \<Rightarrow> point \<Rightarrow> bool" where
  "mismatched pdf gcp p = (matches_pdf_id pdf p \<and> gcp_differs gcp p)"

definition patched_metadata :: "string \<Rightarrow> point \<Rightarrow> metadata" where
  "patched_metadata gcp p = AList.update ''gcp_file_id'' (JStr gcp) (get_metadata p)"

definition patched :: "string \<Rightarrow> point \<Rightarrow> point" where
  "patched gcp p = p\<lparr>pt_payload := (pt_payload p)\<lparr>metadata := Some (patched_metadata gcp p)\<rparr>\<rparr>"

definition write_of :: "string \<Rightarrow> point \<Rightarrow> nat \<times> metadata" where
  "write_of gcp p = (pt_id p, patched_metadata gcp p)"

definition entry_of :: "string \<Rightarrow> string \<Rightarrow> point \<Rightarrow> patched_entry" where
  "entry_of pdf gcp p = \<lparr>pdf_id = pdf, point_id = pt_id p, new_gcp_file_id = gcp\<rparr>"

text \<open>
  The points, the writes and the returned entries. One row: exactly the mismatched
  points are patched, one write and one entry each, in the order of the listing; a row
  with an empty identifier or file id changes nothing.
\<close>

type_synonym repair_view = "point list \<times> (nat \<times> metadata) list \<times> patched_entry list"

definition patch_mismatched :: "string \<Rightarrow> string \<Rightarrow> repair_view \<Rightarrow> repair_view" where
  "patch_mismatched pdf gcp v =
     (case v of (pts, ws, us) \<Rightarrow>
        (map (\<lambda>p. if mismatched pdf gcp p then patched gcp p else p) pts,
         ws @ map (write_of gcp) (filter (mismatched pdf gcp) pts),
         us @ map (entry_of pdf gcp) (filter (mismatched pdf gcp) pts)))"

fun repair_spec :: "(string \<times> string) list \<Rightarrow> repair_view \<Rightarrow> repair_view" where
  "repair_spec [] v = v"
| "repair_spec ((pdf, gcp) # ks) v =
     repair_spec ks (if pdf = [] \<or> gcp = [] then v else patch_mismatched pdf gcp v)"

text \<open>The points the scroll selects for an identifier from an offset on, and those to patch.\<close>

definition selected :: "nat option \<Rightarrow> string \<Rightarrow> point \<Rightarrow> bool" where
  "selected off pdf p = (from_offset off p \<and> matches_pdf_id pdf p)"

definition target :: "nat option \<Rightarrow> string \<Rightarrow> string \<Rightarrow> point \<Rightarrow> bool" where
  "target off pdf gcp p = (selected off pdf p \<and> gcp_differs gcp p)"

subsection \<open>Statements about the driver\<close>

text \<open>
  The contract as it is worded: the live rows as they stand in the sheet (nothing
  trimmed, no row left out), and the points to patch for them.
\<close>

definition stated_targets :: "dataframe \<Rightarrow> point list \<Rightarrow> nat list" where
  "stated_targets df pts =
     map pt_id (filter (\<lambda>p. list_ex (\<lambda>r. mismatched (row_get (columns df) r ''pdf_id'' '''')
                                              (row_get (columns df) r ''gcp_file_id'' '''') p)
                                (live_rows df)) pts)"

text \<open>A returned entry records a write: same point, same identifier, the file id written.\<close>

definition entry_records_write :: "patched_entry \<Rightarrow> nat \<times> metadata \<Rightarrow> bool" where
  "entry_records_write u wr =
     (point_id u = fst wr \<and>
      map_of (snd wr) ''pdf_id'' = Some (JStr (pdf_id u)) \<and>
      map_of (snd wr) ''gcp_file_id'' = Some (JStr (new_gcp_file_id u)))"

text \<open>Two live rows agree when they do not give one identifier two file ids.\<close>

definition valid_key :: "string \<times> string \<Rightarrow> bool" where
  "valid_key k = (fst k \<noteq> [] \<and> snd k \<noteq> [])"

definition keys_agree :: "(string \<times> string) list \<Rightarrow> bool" where
  "keys_agree ks =
     list_all (\<lambda>k. list_all (\<lambda>k'. fst k \<noteq> fst k' \<or> snd k = snd k') (filter valid_key ks))
       (filter valid_key ks)"

text \<open>The driver run again on the stores as its first run left them.\<close>

definition run_twice :: "world \<Rightarrow> (py_exception + world \<times> patched_entry list) option" where
  "run_twice w =
     (case update_qdrant_file_ids_for_live_rows w of
        Some (Inr (w1, us1)) \<Rightarrow> update_qdrant_file_ids_for_live_rows w1
      | r \<Rightarrow> r)"

text \<open>What a run leaves in the vector store and what it returns.\<close>

definition repair_outcome :: "world \<Rightarrow> (py_exception + collection \<times> patched_entry list) option" where
  "repair_outcome w =
     map_option (map_sum id (\<lambda>r. (vectors (fst r), snd r))) (update_qdrant_file_ids_for_live_rows w)"

text \<open>A point before and after: all but the \<^verbatim>\<open>gcp_file_id\<close> of its metadata is kept.\<close>

definition same_but_gcp_file_id :: "point \<Rightarrow> point \<Rightarrow> bool" where
  "same_but_gcp_file_id p p' =
     (pt_id p' = pt_id p \<and> other_keys (pt_payload p') = other_keys (pt_payload p) \<and>
      (\<forall>k. k \<noteq> ''gcp_file_id'' \<longrightarrow> map_of (get_metadata p') k = map_of (get_metadata p) k))"

subsection \<open>Example stores\<close>

definition mk_point :: "nat \<Rightarrow> string \<Rightarrow> string \<Rightarrow> point" where
  "mk_point i pdf gcp =
     \<lparr>pt_id = i,
      pt_payload = \<lparr>metadata = Some [(''pdf_id'', JStr pdf), (''gcp_file_id'', JStr gcp)],
                    other_keys = [(''page_content'', JStr ''text'')]\<rparr>\<rparr>"

definition library_columns :: "string list" where
  "library_columns = [''pdf_id'', ''gcp_file_id'', ''status'']"

text \<open>
  A live row without file id, a live row whose file id has a leading blank, and three
  points.
\<close>

definition blank_world :: world where
  "blank_world =
     \<lparr>tabular = \<lparr>columns = library_columns,
                  rows = [[''X'', '''', ''live''], [''Y'', '' F2'', ''live'']]\<rparr>,
      files = [],
      vectors = \<lparr>points = [mk_point 1 ''X'' ''F1'', mk_point 2 ''Y'' ''F2'', mk_point 3 ''Y'' '' F2''],
                  reads = [], writes = []\<rparr>\<rparr>"

text \<open>Two live rows that give the identifier X two file ids, and one point.\<close>

definition duplicate_world :: world where
  "duplicate_world =
     \<lparr>tabular = \<lparr>columns = library_columns,
                  rows = [[''X'', ''F1'', ''live''], [''X'', ''F2'', ''live'']]\<rparr>,
      files = [],
      vectors = \<lparr>points = [mk_point 1 ''X'' ''F2''], reads = [], writes = []\<rparr>\<rparr>"

text \<open>One live row, one draft row, two points of which one is stale.\<close>

definition stale_world :: world where
  "stale_world =
     \<lparr>tabular = \<lparr>columns = library_columns,
                  rows = [[''X'', ''F1'', ''live''], [''Z'', ''F9'', ''draft'']]\<rparr>,
      files = [(''F1'', ''x.pdf'')],
      vectors = \<lparr>points = [mk_point 1 ''X'' ''F0'', mk_point 2 ''X'' ''F1''],
                  reads = [], writes = []\<rparr>\<rparr>"

text \<open>
  Two live rows of the identifier X that give it the same file id, one of them with
  blanks around its cells, and two points of which one is stale.
\<close>

definition agreeing_world :: world where
  "agreeing_world =
     \<lparr>tabular = \<lparr>columns = library_columns,
                  rows = [[''X'', ''F1'', ''live''], ['' X'', ''F1 '', ''live'']]\<rparr>,
      files = [(''F1'', ''x.pdf'')],
      vectors = \<lparr>points = [mk_point 1 ''X'' ''F0'', mk_point 2 ''X'' ''F1''],
                  reads = [], writes = []\<rparr>\<rparr>"

section \<open>Identity of a file: get_pdf_id_from_file\<close>

type_synonym byte = "8 word"

text \<open>
  What \<^verbatim>\<open>open(file_path, "rb")\<close> and \<^verbatim>\<open>f.read()\<close> give for a path: all the bytes of the
  file, or the exception raised on the way.
\<close>

type_synonym filesystem = "string \<Rightarrow> py_exception + byte list"

text \<open>\<^verbatim>\<open>logging.error("Failed to read file %s: %s", file_path, e)\<close>.\<close>

datatype log_record = LogError string py_exception

text \<open>
  \<^verbatim>\<open>compute_pdf_id\<close> is a parameter here: a function of the bytes read that returns an
  identifier or raises. An exception that \<^verbatim>\<open>except Exception\<close> does not catch leaves the
  function (\<open>Inl\<close>).
\<close>

definition get_pdf_id_from_file ::
  "(byte list \<Rightarrow> py_exception + 'i) \<Rightarrow> filesystem \<Rightarrow> log_record list \<Rightarrow> string
     \<Rightarrow> (py_exception + 'i option) \<times> log_record list" where
  "get_pdf_id_from_file compute fs log file_path =
     (case (case fs file_path of Inl e \<Rightarrow> Inl e | Inr pdf_bytes \<Rightarrow> compute pdf_bytes) of
        Inr i \<Rightarrow> (Inr (Some i), log)
      | Inl e \<Rightarrow> if is_Exception e then (Inr None, log @ [LogError file_path e])
                else (Inl e, log))"

section \<open>Status reconciler: build_status_map\<close>

text \<open>
  Modelled from the spec: \<^verbatim>\<open>build_status_map\<close> (module cleanup) is not among the
  sources; the notebook holds its call and two rows of one recorded result (rows 166 and
  221 of the table). The inputs are those of spec 4.3: the sheet rows (identifier and
  file id of each), the file-store listing (identifier and file id) and the
  vector-store listing (identifier and aggregate). The flags are the columns of the
  recorded table.
\<close>

record vector_aggregate =
  record_count :: nat
  page_count :: nat
  gcp_file_ids :: "string list"

record status_entry =
  se_pdf_id :: string
  in_sheet :: bool
  in_drive :: bool
  in_qdrant :: bool
  empty_pdf_id_in_sheet :: bool
  empty_gcp_file_id_in_sheet :: bool
  empty_gcp_file_id_in_qdrant :: bool
  duplicate_pdf_id_in_sheet :: bool
  unique_file_count :: nat
  zero_record_count :: bool
  file_ids_match :: "bool option"
  issues :: "string list"

text \<open>
  Modelled from the spec: the distinct file ids that the payloads of an identifier
  reference (spec 4.3, input c, and the columns \<^verbatim>\<open>gcp_file_ids\<close> and
  \<^verbatim>\<open>unique_file_count\<close> of the recorded table); a blank value is no file id.
\<close>

definition vector_file_ids :: "(string \<times> vector_aggregate) list \<Rightarrow> string \<Rightarrow> string list" where
  "vector_file_ids qdrant k =
     (case map_of qdrant k of None \<Rightarrow> []
      | Some a \<Rightarrow> remdups (filter (\<lambda>f. f \<noteq> []) (gcp_file_ids a)))"

text \<open>
  Modelled from the spec: the issues are "an ordered, deduplicated list" of the tags of
  the anomalies found (spec 4.3).
\<close>

definition issue_tags :: "(bool \<times> string) list \<Rightarrow> string list" where
  "issue_tags flags = remdups (map snd (filter fst flags))"

text \<open>
  Modelled from the spec: the entry of an identifier, for one of its sheet rows (with
  the file id of the row) or, without sheet row, for the identifier alone. Presence is
  whether the source has a record of the identifier; an \<^verbatim>\<open>empty\<close> flag is raised when a
  present record lacks the field; the duplicate flag when more than one sheet row has
  the identifier (spec 4.3). For \<^verbatim>\<open>file_ids_match\<close> the words of spec 4.3 are followed,
  "indeterminate when either side has no data to compare": None without sheet row,
  without points, and with points that reference no file id; true or false by comparison
  of the file id of the sheet with every file id referenced when both sides have one.
  The one case that the recorded rows and the first scenario of spec 8 decide otherwise
  is the sheet row with a blank file id whose identifier has points: False there (row
  166, where the payloads reference no file id either, and the scenario, where they
  reference F1). The tags "Missing in Drive", "Missing in Qdrant" and "Empty gcp_file_id
  in Sheet" are those of the spec and of the table; the others are named after their
  flag.
\<close>

definition status_entry_of ::
  "(string \<times> string) list \<Rightarrow> (string \<times> string) list \<Rightarrow> (string \<times> vector_aggregate) list
     \<Rightarrow> string \<Rightarrow> string option \<Rightarrow> status_entry" where
  "status_entry_of sheet drive qdrant k row_file_id =
     (let vfids = vector_file_ids qdrant k;
          present_sheet = (row_file_id \<noteq> None);
          present_drive = (map_of drive k \<noteq> None);
          present_qdrant = (map_of qdrant k \<noteq> None);
          empty_id = (present_sheet \<and> k = []);
          empty_sheet = (row_file_id = Some []);
          empty_qdrant = (present_qdrant \<and> vfids = []);
          duplicate = (present_sheet \<and> 1 < length (filter (\<lambda>r. fst r = k) sheet));
          zero = (case map_of qdrant k of None \<Rightarrow> False | Some a \<Rightarrow> record_count a = 0);
          matching = (case row_file_id of
                        None \<Rightarrow> None
                      | Some fid \<Rightarrow>
                          if \<not> present_qdrant then None
                          else if fid = [] then Some False
                          else if vfids = [] then None
                          else Some (list_all (\<lambda>f. f = fid) vfids))
      in \<lparr>se_pdf_id = k,
          in_sheet = present_sheet, in_drive = present_drive, in_qdrant = present_qdrant,
          empty_pdf_id_in_sheet = empty_id,
          empty_gcp_file_id_in_sheet = empty_sheet,
          empty_gcp_file_id_in_qdrant = empty_qdrant,
          duplicate_pdf_id_in_sheet = duplicate,
          unique_file_count = length vfids,
          zero_record_count = zero,
          file_ids_match = matching,
          issues = issue_tags
            [(empty_id, ''Empty pdf_id in Sheet''),
             (empty_sheet, ''Empty gcp_file_id in Sheet''),
             (empty_qdrant, ''Empty gcp_file_id in Qdrant''),
             (duplicate, ''Duplicate pdf_id in Sheet''),
             (\<not> present_sheet, ''Missing in Sheet''),
             (\<not> present_drive, ''Missing in Drive''),
             (\<not> present_qdrant, ''Missing in Qdrant''),
             (zero, ''Zero record_count in Qdrant''),
             (matching = Some False, ''gcp_file_id mismatch'')]\<rparr>)"

text \<open>
  Modelled from the spec: the status map and the entries with issues. The join is an
  outer join (spec 4.3): every sheet row has its entry, in sheet order, as the recorded
  table, which is indexed by sheet row, and the second scenario of spec 8 have it (two
  rows that share an identifier are both kept and both flagged); an identifier of the
  file-store or vector-store listing that no sheet row has gets one entry.
\<close>

definition build_status_map ::
  "(string \<times> string) list \<Rightarrow> (string \<times> string) list \<Rightarrow> (string \<times> vector_aggregate) list
     \<Rightarrow> status_entry list \<times> status_entry list" where
  "build_status_map sheet drive qdrant =
     (let status =
            map (\<lambda>r. status_entry_of sheet drive qdrant (fst r) (Some (snd r))) sheet @
            map (\<lambda>k. status_entry_of sheet drive qdrant k None)
              (filter (\<lambda>k. k \<notin> set (map fst sheet)) (remdups (map fst drive @ map fst qdrant)))
      in (status, filter (\<lambda>e. issues e \<noteq> []) status))"

section \<open>Deletion driver: delete_tagged\<close>

text \<open>
  Modelled from the spec: \<^verbatim>\<open>delete_tagged\<close> (module cleanup) is not among the sources; the
  notebook holds its call only. Spec 4.5: for each row tagged for deletion the file is
  removed from the file store and the points of the identifier from the vector store,
  both tolerating absence, then the row is removed from the sheet; the rows deleted are
  returned. The tag is the one of spec 3.
\<close>

text \<open>Modelled from the spec: the lifecycle tag of a row to delete (spec 3).\<close>

definition deletion_tag :: string where
  "deletion_tag = ''tagged-for-deletion''"

text \<open>Modelled from the spec: the rows tagged for deletion (spec 4.5).\<close>

definition tagged_rows :: "dataframe \<Rightarrow> string list list" where
  "tagged_rows df =
     filter (\<lambda>r. map_of (zip (columns df) r) ''status'' = Some deletion_tag) (rows df)"

text \<open>
  Modelled from the spec: the deletion of one tagged row (spec 4.5): its file, the points
  of its identifier, then the row; what is absent already is left absent.
\<close>

definition delete_row :: "world \<Rightarrow> string list \<Rightarrow> world" where
  "delete_row w r =
     (let cols = columns (tabular w);
          pdf = row_get cols r ''pdf_id'' '''';
          fid = row_get cols r ''gcp_file_id'' ''''
      in w\<lparr>files := filter (\<lambda>f. fst f \<noteq> fid) (files w),
           vectors := (vectors w)\<lparr>points := filter (\<lambda>p. \<not> matches_pdf_id pdf p) (points (vectors w))\<rparr>,
           tabular := (tabular w)\<lparr>rows := removeAll r (rows (tabular w))\<rparr>\<rparr>)"

text \<open>
  Modelled from the spec: the deletion driver (spec 4.5); it returns the stores and the
  rows it deleted.
\<close>

definition delete_tagged :: "world \<Rightarrow> world \<times> string list list" where
  "delete_tagged w = (let tagged = tagged_rows (tabular w) in (foldl delete_row w tagged, tagged))"

section \<open>Example inputs\<close>

definition missing_file :: filesystem where
  "missing_file = (\<lambda>p. Inl (OSError ''No such file or directory''))"

text \<open>The two recorded rows of the status map: rows 166 and 221 of the table.\<close>

definition row_166 :: string where
  "row_166 = ''d354afd1-95ea-5489-9df7-3abdd322d73c''"

definition row_221 :: string where
  "row_221 = ''af8c8931-3913-5cad-9f02-125d982cbe86''"

definition recorded_sheet :: "(string \<times> string) list" where
  "recorded_sheet = [(row_166, ''''), (row_221, ''1dxDBQAcPCzxTbZPsk5AgLC0h-HEL-2g2'')]"

definition recorded_drive :: "(string \<times> string) list" where
  "recorded_drive = [(row_221, ''1dxDBQAcPCzxTbZPsk5AgLC0h-HEL-2g2'')]"

definition recorded_qdrant :: "(string \<times> vector_aggregate) list" where
  "recorded_qdrant = [(row_166, \<lparr>record_count = 132, page_count = 133, gcp_file_ids = []\<rparr>)]"

text \<open>
  The first scenario of spec 8: a sheet row of X with a blank file id, no file, and
  three points of X that reference F1.
\<close>

definition scenario_sheet :: "(string \<times> string) list" where
  "scenario_sheet = [(''X'', '''')]"

definition scenario_qdrant :: "(string \<times> vector_aggregate) list" where
  "scenario_qdrant =
     [(''X'', \<lparr>record_count = 3, page_count = 3, gcp_file_ids = [''F1'', ''F1'', ''F1'']\<rparr>)]"

text \<open>The second scenario of spec 8: two sheet rows share the identifier Y.\<close>

definition shared_sheet :: "(string \<times> string) list" where
  "shared_sheet = [(''Y'', ''F1''), (''Y'', ''F1'')]"

definition shared_drive :: "(string \<times> string) list" where
  "shared_drive = [(''Y'', ''F1'')]"

definition shared_qdrant :: "(string \<times> vector_aggregate) list" where
  "shared_qdrant = [(''Y'', \<lparr>record_count = 2, page_count = 2, gcp_file_ids = [''F1'', ''F1'']\<rparr>)]"

text \<open>
  A sheet row of X with its file id, a file of an identifier D that the sheet does not
  have, and no points.
\<close>

definition lone_sheet :: "(string \<times> string) list" where
  "lone_sheet = [(''X'', ''F1'')]"

definition lone_drive :: "(string \<times> string) list" where
  "lone_drive = [(''D'', ''F7'')]"

section \<open>Repair driver: the loop in closed form\<close>

lemma pt_id_patched [simp]: "pt_id (patched gcp p) = pt_id p"
  by (simp add: patched_def)

lemma map_pt_id_map: "(\<And>x. pt_id (f x) = pt_id x) \<Longrightarrow> map pt_id (map f xs) = map pt_id xs"
  by (induction xs) auto

lemma patch_point_differs:
  "gcp_differs gcp p \<Longrightarrow> patch_point pdf gcp (q, us) p =
     (q\<lparr>points := map (\<lambda>x. if pt_id x = pt_id p then x\<lparr>pt_payload := (pt_payload x)\<lparr>metadata := Some (patched_metadata gcp p)\<rparr>\<rparr> else x) (points q),
        writes := writes q @ [write_of gcp p]\<rparr>, us @ [entry_of pdf gcp p])"
  by (simp add: patch_point_def gcp_differs_def set_payload_def patched_metadata_def write_of_def entry_of_def Let_def)

lemma patch_point_same:
  "\<not> gcp_differs gcp p \<Longrightarrow> patch_point pdf gcp st p = st"
  by (simp add: patch_point_def gcp_differs_def)

lemma set_payload_points_distinct:
  assumes "distinct (map pt_id xs)" "p \<in> set xs"
  shows "map (\<lambda>x. if pt_id x = pt_id p then x\<lparr>pt_payload := (pt_payload x)\<lparr>metadata := Some (patched_metadata gcp p)\<rparr>\<rparr> else x) xs
       = map (\<lambda>x. if x = p then patched gcp p else x) xs"
proof (rule map_cong[OF refl])
  fix x assume "x \<in> set xs"
  with assms have "pt_id x = pt_id p \<longleftrightarrow> x = p"
    by (meson distinct_map inj_onD)
  then show "(if pt_id x = pt_id p then x\<lparr>pt_payload := (pt_payload x)\<lparr>metadata := Some (patched_metadata gcp p)\<rparr>\<rparr> else x)
       = (if x = p then patched gcp p else x)"
    by (auto simp: patched_def)
qed

lemma foldl_patch_page:
  assumes "distinct (map pt_id (points q))" "set pts \<subseteq> set (points q)" "distinct (map pt_id pts)"
  shows "foldl (patch_point pdf gcp) (q, us) pts =
     (q\<lparr>points := map (\<lambda>x. if x \<in> set pts \<and> gcp_differs gcp x then patched gcp x else x) (points q),
        writes := writes q @ map (write_of gcp) (filter (gcp_differs gcp) pts)\<rparr>,
      us @ map (entry_of pdf gcp) (filter (gcp_differs gcp) pts))"
  using assms
proof (induction pts arbitrary: q us)
  case Nil
  then show ?case by simp
next
  case (Cons p pts)
  have p_in: "p \<in> set (points q)" and p_new: "pt_id p \<notin> pt_id ` set pts"
    using Cons.prems by auto
  show ?case
  proof (cases "gcp_differs gcp p")
    case True
    let ?q1 = "q\<lparr>points := map (\<lambda>x. if x = p then patched gcp p else x) (points q),
                  writes := writes q @ [write_of gcp p]\<rparr>"
    have step: "patch_point pdf gcp (q, us) p = (?q1, us @ [entry_of pdf gcp p])"
      using patch_point_differs[OF True] set_payload_points_distinct[OF Cons.prems(1) p_in]
      by simp
    have d1: "distinct (map pt_id (points ?q1))"
    proof -
      have "map pt_id (points ?q1) = map pt_id (points q)"
        by (simp del: map_map) (rule map_pt_id_map, simp)
      then show ?thesis using Cons.prems(1) by (simp del: map_map)
    qed
    have s1: "set pts \<subseteq> set (points ?q1)"
    proof
      fix x assume x: "x \<in> set pts"
      then have "x \<noteq> p" using p_new by auto
      moreover have "x \<in> set (points q)" using x Cons.prems(2) by auto
      ultimately show "x \<in> set (points ?q1)" by (auto simp: image_iff)
    qed
    have d2: "distinct (map pt_id pts)" using Cons.prems(3) by simp
    have pts_eq: "map (\<lambda>x. if x \<in> set pts \<and> gcp_differs gcp x then patched gcp x else x) (points ?q1)
       = map (\<lambda>x. if x \<in> set (p # pts) \<and> gcp_differs gcp x then patched gcp x else x) (points q)"
    proof -
      have "patched gcp p \<notin> set pts" using p_new by (metis image_eqI pt_id_patched)
      then show ?thesis using True p_new by (auto simp: comp_def)
    qed
    show ?thesis
      using Cons.IH[OF d1 s1 d2, of "us @ [entry_of pdf gcp p]"] step pts_eq True
      by simp
  next
    case False
    have "p \<notin> set pts" using p_new by auto
    then have "map (\<lambda>x. if x \<in> set pts \<and> gcp_differs gcp x then patched gcp x else x) (points q)
       = map (\<lambda>x. if x \<in> set (p # pts) \<and> gcp_differs gcp x then patched gcp x else x) (points q)"
      using False by (intro map_cong) auto
    then show ?thesis
      using Cons.IH[of q us] Cons.prems patch_point_same[OF False] False by simp
  qed
qed

lemma matches_patched [simp]: "matches_pdf_id pdf (patched gcp p) = matches_pdf_id pdf p"
  by (simp add: matches_pdf_id_def patched_def patched_metadata_def get_metadata_def update_conv'
      split: option.splits)

lemma from_offset_patched [simp]: "from_offset off (patched gcp p) = from_offset off p"
  by (cases off) (simp_all add: from_offset_def)

lemma not_differs_patched [simp]: "\<not> gcp_differs gcp (patched gcp p)"
  by (simp add: gcp_differs_def patched_def patched_metadata_def get_metadata_def update_conv')

lemma sorted_split_filter:
  assumes "sorted_wrt (\<lambda>x y. f x < (f y :: nat)) ys" "n < length ys"
  shows "filter (\<lambda>x. f x < f (ys ! n)) ys = take n ys"
    and "filter (\<lambda>x. f (ys ! n) \<le> f x) ys = drop n ys"
proof -
  have lt: "\<And>i j. i < j \<Longrightarrow> j < length ys \<Longrightarrow> f (ys ! i) < f (ys ! j)"
    using assms(1) by (simp add: sorted_wrt_iff_nth_less)
  have A: "\<forall>x\<in>set (take n ys). f x < f (ys ! n)"
  proof
    fix x assume "x \<in> set (take n ys)"
    then obtain i where "i < n" "i < length ys" "x = ys ! i"
      by (auto simp: in_set_conv_nth)
    then show "f x < f (ys ! n)" using lt assms(2) by simp
  qed
  have B: "\<forall>x\<in>set (drop n ys). f (ys ! n) \<le> f x"
  proof
    fix x assume "x \<in> set (drop n ys)"
    then obtain i where i: "i < length ys - n" "x = ys ! (n + i)"
      by (auto simp: in_set_conv_nth)
    show "f (ys ! n) \<le> f x"
    proof (cases "i = 0")
      case True then show ?thesis using i by simp
    next
      case False
      then have "f (ys ! n) < f (ys ! (n + i))" using lt[of n "n + i"] i by simp
      then show ?thesis using i by simp
    qed
  qed
  have split: "ys = take n ys @ drop n ys" by simp
  have "filter (\<lambda>x. f x < f (ys ! n)) (take n ys @ drop n ys) = take n ys"
    using A B by (simp add: filter_empty_conv filter_id_conv not_less del: append_take_drop_id)
  then show "filter (\<lambda>x. f x < f (ys ! n)) ys = take n ys" by simp
  have "filter (\<lambda>x. f (ys ! n) \<le> f x) (take n ys @ drop n ys) = drop n ys"
    using A B by (simp add: filter_empty_conv filter_id_conv not_le del: append_take_drop_id)
  then show "filter (\<lambda>x. f (ys ! n) \<le> f x) ys = drop n ys" by simp
qed

lemma filter_map_stable:
  assumes "\<And>x. x \<in> set xs \<Longrightarrow> P (g x) = P x" "\<And>x. x \<in> set xs \<Longrightarrow> P x \<Longrightarrow> g x = x"
  shows "filter P (map g xs) = filter P xs"
  using assms by (induction xs) auto

lemma length_filter_map_stable:
  assumes "\<And>x. x \<in> set xs \<Longrightarrow> P (g x) = P x"
  shows "length (filter P (map g xs)) = length (filter P xs)"
  using assms by (induction xs) auto

lemma filter_target:
  "filter (target off pdf gcp) xs = filter (gcp_differs gcp) (filter (selected off pdf) xs)"
  by (simp add: target_def[abs_def])

lemma scroll_loop_closed:
  assumes "sorted_wrt (<) (map pt_id (points q))"
  shows "\<exists>rs. scroll_loop pdf gcp off (q, us) =
     Some (q\<lparr>points := map (\<lambda>x. if target off pdf gcp x then patched gcp x else x) (points q),
             reads := reads q @ rs,
             writes := writes q @ map (write_of gcp) (filter (target off pdf gcp) (points q))\<rparr>,
           us @ map (entry_of pdf gcp) (filter (target off pdf gcp) (points q)))"
  using assms
proof (induction "length (filter (selected off pdf) (points q))" arbitrary: q us off rule: less_induct)
  case less
  let ?xs = "points q"
  let ?F = "\<lambda>off x. if target off pdf gcp x then patched gcp x else x"
  define cand where "cand = filter (selected off pdf) ?xs"
  have dist: "distinct (map pt_id ?xs)"
    using less.prems by (simp add: strict_sorted_iff)
  have sorted_cand: "sorted_wrt (\<lambda>x y. pt_id x < pt_id y) cand"
    using less.prems by (simp add: cand_def sorted_wrt_map sorted_wrt_filter)
  have dist_cand: "distinct (map pt_id cand)"
    using dist by (simp add: cand_def distinct_map_filter)
  let ?q0 = "q\<lparr>reads := reads q @ [(pdf, off)]\<rparr>"
  have unfold: "scroll_loop pdf gcp off (q, us) =
      (if take 100 cand = [] then Some (?q0, us)
       else if \<not> 100 < length cand then Some (foldl (patch_point pdf gcp) (?q0, us) (take 100 cand))
       else scroll_loop pdf gcp (Some (pt_id (cand ! 100))) (foldl (patch_point pdf gcp) (?q0, us) (take 100 cand)))"
  proof -
    have cand_alt: "filter (\<lambda>p. from_offset off p \<and> matches_pdf_id pdf p) ?xs = cand"
      by (simp add: cand_def selected_def[abs_def])
    show ?thesis
      by (subst scroll_loop.simps) (simp add: scroll_def Let_def cand_alt)
  qed
  have page_fold: "\<And>page. set page \<subseteq> set cand \<Longrightarrow> distinct (map pt_id page) \<Longrightarrow>
      foldl (patch_point pdf gcp) (?q0, us) page =
      (?q0\<lparr>points := map (\<lambda>x. if x \<in> set page \<and> gcp_differs gcp x then patched gcp x else x) ?xs,
           writes := writes q @ map (write_of gcp) (filter (gcp_differs gcp) page)\<rparr>,
       us @ map (entry_of pdf gcp) (filter (gcp_differs gcp) page))"
  proof -
    fix page assume "set page \<subseteq> set cand" "distinct (map pt_id page)"
    then show "foldl (patch_point pdf gcp) (?q0, us) page =
      (?q0\<lparr>points := map (\<lambda>x. if x \<in> set page \<and> gcp_differs gcp x then patched gcp x else x) ?xs,
           writes := writes q @ map (write_of gcp) (filter (gcp_differs gcp) page)\<rparr>,
       us @ map (entry_of pdf gcp) (filter (gcp_differs gcp) page))"
      using foldl_patch_page[of ?q0 page pdf gcp us] dist by (auto simp: cand_def)
  qed
  consider (empty) "cand = []" | (last) "cand \<noteq> []" "length cand \<le> 100" | (more) "100 < length cand"
    by fastforce
  then show ?case
  proof cases
    case empty
    have no: "\<And>x. x \<in> set ?xs \<Longrightarrow> \<not> selected off pdf x"
      using empty by (simp add: cand_def filter_empty_conv)
    have "map (?F off) ?xs = ?xs"
      by (rule map_idI) (simp add: target_def no)
    moreover have "filter (target off pdf gcp) ?xs = []"
      by (simp add: filter_empty_conv target_def no)
    ultimately show ?thesis
      using unfold empty by (intro exI[of _ "[(pdf, off)]"]) simp
  next
    case last
    have m: "map (\<lambda>x. if x \<in> set cand \<and> gcp_differs gcp x then patched gcp x else x) ?xs = map (?F off) ?xs"
      by (rule map_cong) (auto simp: cand_def target_def)
    have f: "filter (gcp_differs gcp) cand = filter (target off pdf gcp) ?xs"
      by (simp only: cand_def filter_target)
    show ?thesis
      using unfold last page_fold[of cand] dist_cand m f
      by (intro exI[of _ "[(pdf, off)]"]) simp
  next
    case more
    define a where "a = pt_id (cand ! 100)"
    define page where "page = take 100 cand"
    define G where "G = (\<lambda>x. if x \<in> set page \<and> gcp_differs gcp x then patched gcp x else x)"
    have take_eq: "page = filter (\<lambda>x. pt_id x < a) cand"
      and drop_eq: "drop 100 cand = filter (\<lambda>x. a \<le> pt_id x) cand"
      using sorted_split_filter[OF sorted_cand more] by (simp_all add: page_def a_def)
    have "cand ! 100 \<in> set cand" using more by simp
    then have "from_offset off (cand ! 100)" by (simp add: cand_def selected_def)
    then have off_a: "\<And>x. a \<le> pt_id x \<Longrightarrow> from_offset off x"
      by (cases off) (simp_all add: from_offset_def a_def)
    have sel_a: "\<And>x. selected (Some a) pdf x \<longleftrightarrow> selected off pdf x \<and> a \<le> pt_id x"
      using off_a by (auto simp: selected_def from_offset_def)
    have in_page: "\<And>x. x \<in> set page \<longleftrightarrow> x \<in> set ?xs \<and> selected off pdf x \<and> pt_id x < a"
      by (auto simp: take_eq cand_def)
    have G_id: "\<And>x. pt_id (G x) = pt_id x" by (simp add: G_def)
    have G_sel: "\<And>off x. selected off pdf (G x) = selected off pdf x"
      by (simp add: G_def selected_def)
    have G_far: "\<And>x. a \<le> pt_id x \<Longrightarrow> G x = x"
      by (auto simp: G_def in_page)
    let ?q1 = "?q0\<lparr>points := map G ?xs,
                   writes := writes q @ map (write_of gcp) (filter (gcp_differs gcp) page)\<rparr>"
    let ?us1 = "us @ map (entry_of pdf gcp) (filter (gcp_differs gcp) page)"
    have dist_page: "distinct (map pt_id page)"
      using dist_cand by (simp add: page_def take_map[symmetric] distinct_take)
    have sub_page: "set page \<subseteq> set cand"
      by (simp add: page_def set_take_subset)
    have fold1: "foldl (patch_point pdf gcp) (?q0, us) page = (?q1, ?us1)"
      using page_fold[OF sub_page dist_page] by (simp add: G_def)
    have sorted1: "sorted_wrt (<) (map pt_id (points ?q1))"
      using less.prems map_pt_id_map[of G ?xs, OF G_id] by (simp del: map_map)
    have sel_a_xs: "filter (selected (Some a) pdf) ?xs = drop 100 cand"
    proof -
      have "filter (selected (Some a) pdf) ?xs = filter (\<lambda>x. selected off pdf x \<and> a \<le> pt_id x) ?xs"
        by (rule filter_cong) (simp_all add: sel_a)
      also have "\<dots> = filter (\<lambda>x. a \<le> pt_id x) cand"
        by (simp add: cand_def)
      finally show ?thesis by (simp only: drop_eq)
    qed
    have "length (filter (selected (Some a) pdf) (points ?q1)) = length (filter (selected (Some a) pdf) ?xs)"
      using length_filter_map_stable[of ?xs "selected (Some a) pdf" G] G_sel by simp
    then have meas: "length (filter (selected (Some a) pdf) (points ?q1)) < length (filter (selected off pdf) ?xs)"
      using more by (simp add: sel_a_xs) (simp add: cand_def)
    from less.hyps[OF meas sorted1, of ?us1] obtain rs where
      rec: "scroll_loop pdf gcp (Some a) (?q1, ?us1) =
        Some (?q1\<lparr>points := map (?F (Some a)) (points ?q1),
                reads := reads ?q1 @ rs,
                writes := writes ?q1 @ map (write_of gcp) (filter (target (Some a) pdf gcp) (points ?q1))\<rparr>,
              ?us1 @ map (entry_of pdf gcp) (filter (target (Some a) pdf gcp) (points ?q1)))"
      by blast
    have pts: "map (?F (Some a)) (map G ?xs) = map (?F off) ?xs"
    proof -
      have "\<And>x. x \<in> set ?xs \<Longrightarrow> ?F (Some a) (G x) = ?F off x"
      proof -
        fix x assume x: "x \<in> set ?xs"
        show "?F (Some a) (G x) = ?F off x"
        proof (cases "a \<le> pt_id x")
          case True
          then show ?thesis using G_far[OF True] sel_a[of x] by (simp add: target_def)
        next
          case False
          then have "\<not> target (Some a) pdf gcp (G x)"
            by (simp add: target_def G_sel sel_a)
          then show ?thesis using False x by (auto simp: G_def in_page target_def)
        qed
      qed
      then show ?thesis by simp
    qed
    have tgt_a: "filter (target (Some a) pdf gcp) (map G ?xs) = filter (target (Some a) pdf gcp) ?xs"
    proof (rule filter_map_stable)
      fix x assume "x \<in> set ?xs"
      show "target (Some a) pdf gcp (G x) = target (Some a) pdf gcp x"
        using G_far[of x] by (cases "a \<le> pt_id x") (simp_all add: target_def G_sel sel_a)
      show "target (Some a) pdf gcp x \<Longrightarrow> G x = x"
        using G_far[of x] by (simp add: target_def sel_a)
    qed
    have "filter (target off pdf gcp) ?xs = filter (gcp_differs gcp) (take 100 cand @ drop 100 cand)"
      by (simp only: cand_def filter_target append_take_drop_id)
    also have "\<dots> = filter (gcp_differs gcp) page @ filter (gcp_differs gcp) (drop 100 cand)"
      by (simp add: page_def del: append_take_drop_id)
    also have "filter (gcp_differs gcp) (drop 100 cand) = filter (target (Some a) pdf gcp) ?xs"
      by (simp only: sel_a_xs[symmetric] filter_target)
    finally have flt: "filter (target off pdf gcp) ?xs =
        filter (gcp_differs gcp) page @ filter (target (Some a) pdf gcp) (map G ?xs)"
      by (simp add: tgt_a)
    have "page \<noteq> []" using more by (auto simp: page_def)
    then show ?thesis
      using unfold more rec fold1 pts flt
      by (intro exI[of _ "(pdf, off) # rs"]) (simp add: page_def[symmetric] a_def[symmetric])
  qed
qed

lemma target_None [simp]: "target None pdf gcp = mismatched pdf gcp"
  by (rule ext) (simp add: target_def selected_def mismatched_def from_offset_def)

lemma repair_row_closed:
  assumes "sorted_wrt (<) (map pt_id (points q))"
  shows "\<exists>rs. repair_row cols row (q, us) =
     Some (q\<lparr>points := fst (repair_spec [(strip (row_get cols row ''pdf_id'' ''''), strip (row_get cols row ''gcp_file_id'' ''''))] (points q, writes q, us)),
             reads := reads q @ rs,
             writes := fst (snd (repair_spec [(strip (row_get cols row ''pdf_id'' ''''), strip (row_get cols row ''gcp_file_id'' ''''))] (points q, writes q, us)))\<rparr>,
           snd (snd (repair_spec [(strip (row_get cols row ''pdf_id'' ''''), strip (row_get cols row ''gcp_file_id'' ''''))] (points q, writes q, us))))"
proof (cases "strip (row_get cols row ''pdf_id'' '''') = [] \<or> strip (row_get cols row ''gcp_file_id'' '''') = []")
  case True
  then show ?thesis
    by (intro exI[of _ "[]"]) (auto simp: repair_row_def)
next
  case False
  then show ?thesis
    using scroll_loop_closed[OF assms, of "strip (row_get cols row ''pdf_id'' '''')" "strip (row_get cols row ''gcp_file_id'' '''')" None us]
    by (auto simp: repair_row_def patch_mismatched_def Let_def)
qed

lemma pt_ids_patch_mismatched:
  "map pt_id (fst (patch_mismatched pdf gcp (pts, ws, us))) = map pt_id pts"
  by (simp add: patch_mismatched_def del: map_map) (rule map_pt_id_map, simp)

lemma pt_ids_repair_spec:
  "map pt_id (fst (repair_spec ks (pts, ws, us))) = map pt_id pts"
proof (induction ks arbitrary: pts ws us)
  case Nil
  then show ?case by simp
next
  case (Cons k ks)
  obtain pdf gcp where k: "k = (pdf, gcp)" by (cases k)
  obtain pts' ws' us' where v: "patch_mismatched pdf gcp (pts, ws, us) = (pts', ws', us')"
    by (cases "patch_mismatched pdf gcp (pts, ws, us)")
  have "map pt_id pts' = map pt_id pts"
    using pt_ids_patch_mismatched[of pdf gcp pts ws us] v by simp
  then show ?case using Cons.IH[of pts' ws' us'] Cons.IH[of pts ws us] k v by simp
qed

lemma repair_spec_append:
  "repair_spec (ks @ ks') v = repair_spec ks' (repair_spec ks v)"
  by (induction ks v rule: repair_spec.induct) simp_all

lemma repair_rows_closed:
  assumes "sorted_wrt (<) (map pt_id (points q))"
  shows "\<exists>rs. repair_rows cols rws (q, us) =
     Some (q\<lparr>points := fst (repair_spec (map (\<lambda>r. (strip (row_get cols r ''pdf_id'' ''''), strip (row_get cols r ''gcp_file_id'' ''''))) rws) (points q, writes q, us)),
             reads := reads q @ rs,
             writes := fst (snd (repair_spec (map (\<lambda>r. (strip (row_get cols r ''pdf_id'' ''''), strip (row_get cols r ''gcp_file_id'' ''''))) rws) (points q, writes q, us)))\<rparr>,
           snd (snd (repair_spec (map (\<lambda>r. (strip (row_get cols r ''pdf_id'' ''''), strip (row_get cols r ''gcp_file_id'' ''''))) rws) (points q, writes q, us))))"
  using assms
proof (induction rws arbitrary: q us)
  case Nil
  show ?case by (intro exI[of _ "[]"]) simp
next
  case (Cons r rws)
  let ?k = "(strip (row_get cols r ''pdf_id'' ''''), strip (row_get cols r ''gcp_file_id'' ''''))"
  obtain pts1 ws1 us1 where v1: "repair_spec [?k] (points q, writes q, us) = (pts1, ws1, us1)"
    by (cases "repair_spec [?k] (points q, writes q, us)")
  from repair_row_closed[OF Cons.prems, of cols r us] obtain rs1 where
    r1: "repair_row cols r (q, us) = Some (q\<lparr>points := pts1, reads := reads q @ rs1, writes := ws1\<rparr>, us1)"
    using v1 by auto
  let ?q1 = "q\<lparr>points := pts1, reads := reads q @ rs1, writes := ws1\<rparr>"
  have "map pt_id pts1 = map pt_id (points q)"
    using pt_ids_repair_spec[of "[?k]" "points q" "writes q" us] v1 by simp
  then have s1: "sorted_wrt (<) (map pt_id (points ?q1))" using Cons.prems by simp
  from Cons.IH[OF s1, of us1] obtain rs2 where
    r2: "repair_rows cols rws (?q1, us1) =
      Some (?q1\<lparr>points := fst (repair_spec (map (\<lambda>r. (strip (row_get cols r ''pdf_id'' ''''), strip (row_get cols r ''gcp_file_id'' ''''))) rws) (pts1, ws1, us1)),
             reads := reads ?q1 @ rs2,
             writes := fst (snd (repair_spec (map (\<lambda>r. (strip (row_get cols r ''pdf_id'' ''''), strip (row_get cols r ''gcp_file_id'' ''''))) rws) (pts1, ws1, us1)))\<rparr>,
           snd (snd (repair_spec (map (\<lambda>r. (strip (row_get cols r ''pdf_id'' ''''), strip (row_get cols r ''gcp_file_id'' ''''))) rws) (pts1, ws1, us1))))"
    by auto
  have sp: "repair_spec (map (\<lambda>r. (strip (row_get cols r ''pdf_id'' ''''), strip (row_get cols r ''gcp_file_id'' ''''))) (r # rws)) (points q, writes q, us)
     = repair_spec (map (\<lambda>r. (strip (row_get cols r ''pdf_id'' ''''), strip (row_get cols r ''gcp_file_id'' ''''))) rws) (pts1, ws1, us1)"
    using repair_spec_append[of "[?k]" _ "(points q, writes q, us)"] v1 by simp
  show ?case
    unfolding sp using r1 r2 by (intro exI[of _ "rs1 @ rs2"]) simp
qed

lemma live_keys_eq:
  "live_keys df = map (\<lambda>r. (strip (row_get (columns df) r ''pdf_id'' ''''), strip (row_get (columns df) r ''gcp_file_id'' ''''))) (live_rows df)"
  by (simp add: live_keys_def)

lemma label_once: "distinct cols \<Longrightarrow> \<not> 1 < length (filter (\<lambda>c. c = x) cols)"
  by (induction cols) (auto simp: filter_empty_conv)

lemma driver_closed:
  assumes "wf_collection (vectors w)" "''status'' \<in> set (columns (tabular w))"
    and "distinct (columns (tabular w))"
  shows "\<exists>rs. update_qdrant_file_ids_for_live_rows w =
     Some (Inr (w\<lparr>vectors := (vectors w)
                  \<lparr>points := fst (repair_spec (live_keys (tabular w)) (points (vectors w), writes (vectors w), [])),
                   reads := reads (vectors w) @ rs,
                   writes := fst (snd (repair_spec (live_keys (tabular w)) (points (vectors w), writes (vectors w), [])))\<rparr>\<rparr>,
                snd (snd (repair_spec (live_keys (tabular w)) (points (vectors w), writes (vectors w), [])))))"
proof (cases "live_rows (tabular w) = []")
  case True
  then show ?thesis
    using assms(2) label_once[OF assms(3), of "''status''"]
    by (intro exI[of _ "[]"]) (simp add: update_qdrant_file_ids_for_live_rows_def live_keys_def)
next
  case False
  from repair_rows_closed[of "vectors w" "columns (tabular w)" "live_rows (tabular w)" "[]"] assms(1)
  obtain rs where "repair_rows (columns (tabular w)) (live_rows (tabular w)) (vectors w, []) =
     Some ((vectors w)\<lparr>points := fst (repair_spec (live_keys (tabular w)) (points (vectors w), writes (vectors w), [])),
             reads := reads (vectors w) @ rs,
             writes := fst (snd (repair_spec (live_keys (tabular w)) (points (vectors w), writes (vectors w), [])))\<rparr>,
           snd (snd (repair_spec (live_keys (tabular w)) (points (vectors w), writes (vectors w), []))))"
    unfolding live_keys_eq wf_collection_def by blast
  then show ?thesis
    using assms(2) False label_once[OF assms(3), of "''status''"]
    by (intro exI[of _ rs]) (simp add: update_qdrant_file_ids_for_live_rows_def Let_def)
qed

lemma wf_blank_world: "wf_collection (vectors blank_world)"
  by (simp add: wf_collection_def blank_world_def mk_point_def)

lemma wf_stale_world: "wf_collection (vectors stale_world)"
  by (simp add: wf_collection_def stale_world_def mk_point_def)

lemma wf_duplicate_world: "wf_collection (vectors duplicate_world)"
  by (simp add: wf_collection_def duplicate_world_def mk_point_def)

lemma wf_agreeing_world: "wf_collection (vectors agreeing_world)"
  by (simp add: wf_collection_def agreeing_world_def mk_point_def)

lemmas driver_unfold =
  update_qdrant_file_ids_for_live_rows_def live_rows_def repair_row_def row_get_def strip_def
  is_space_def scroll_loop.simps scroll_def from_offset_def matches_pdf_id_def patch_point_def
  set_payload_def get_metadata_def Let_def library_columns_def mk_point_def

text \<open>
  Claim C1, as amended. On a well-formed collection and a sheet whose column labels are
  distinct and include status the driver returns, and what it leaves is what the contract
  asks for once the rows are read the way the driver reads them: for each live row whose
  trimmed identifier and trimmed file id are both non-empty, in sheet order, exactly the
  points whose \<^verbatim>\<open>pdf_id\<close> equals the trimmed identifier and whose
  \<^verbatim>\<open>gcp_file_id\<close> differs from the trimmed file id at that moment
  are patched, one write each; every other point gets no write, and a live row with an
  empty trimmed field causes none.
\<close>

theorem repair_patches_exactly_mismatched:
  assumes "wf_collection (vectors w)" "''status'' \<in> set (columns (tabular w))"
    and "distinct (columns (tabular w))"
  shows "\<exists>w' us. update_qdrant_file_ids_for_live_rows w = Some (Inr (w', us)) \<and>
           (points (vectors w'), writes (vectors w'), us) =
             repair_spec (live_keys (tabular w)) (points (vectors w), writes (vectors w), [])"
proof -
  from driver_closed[OF assms] obtain rs where
    "update_qdrant_file_ids_for_live_rows w =
     Some (Inr (w\<lparr>vectors := (vectors w)
                  \<lparr>points := fst (repair_spec (live_keys (tabular w)) (points (vectors w), writes (vectors w), [])),
                   reads := reads (vectors w) @ rs,
                   writes := fst (snd (repair_spec (live_keys (tabular w)) (points (vectors w), writes (vectors w), [])))\<rparr>\<rparr>,
                snd (snd (repair_spec (live_keys (tabular w)) (points (vectors w), writes (vectors w), [])))))"
    by blast
  then show ?thesis by simp
qed

text \<open>The hypotheses hold of the store with one stale point.\<close>

theorem repair_patches_exactly_mismatched_witness:
  "wf_collection (vectors stale_world) \<and> ''status'' \<in> set (columns (tabular stale_world)) \<and>
   distinct (columns (tabular stale_world)) \<and>
   (\<exists>w' us. update_qdrant_file_ids_for_live_rows stale_world = Some (Inr (w', us)) \<and>
           (points (vectors w'), writes (vectors w'), us) =
             repair_spec (live_keys (tabular stale_world))
               (points (vectors stale_world), writes (vectors stale_world), []))"
  using repair_patches_exactly_mismatched[of stale_world] wf_stale_world
  by (simp add: stale_world_def library_columns_def)

text \<open>
  The claim as worded fails: the live row without file id leaves point 1 alone though
  its file id differs, and the untrimmed file id of the other row would select point 2,
  not point 3, which is the one written.
\<close>

theorem repair_as_stated_counterexample:
  "update_qdrant_file_ids_for_live_rows blank_world =
     Some (Inr (blank_world\<lparr>vectors := (vectors blank_world)
                  \<lparr>points := [mk_point 1 ''X'' ''F1'', mk_point 2 ''Y'' ''F2'', mk_point 3 ''Y'' ''F2''],
                   reads := [(''Y'', None)],
                   writes := [(3, [(''pdf_id'', JStr ''Y''), (''gcp_file_id'', JStr ''F2'')])]\<rparr>\<rparr>,
                [\<lparr>pdf_id = ''Y'', point_id = 3, new_gcp_file_id = ''F2''\<rparr>])) \<and>
   stated_targets (tabular blank_world) (points (vectors blank_world)) = [1, 2]"
  by (simp add: blank_world_def stated_targets_def mismatched_def gcp_differs_def driver_unfold)

lemma patched_metadata_other_key:
  "k \<noteq> ''gcp_file_id'' \<Longrightarrow> map_of (patched_metadata gcp p) k = map_of (get_metadata p) k"
  by (simp add: patched_metadata_def update_conv')

lemma patched_metadata_gcp:
  "map_of (patched_metadata gcp p) ''gcp_file_id'' = Some (JStr gcp)"
  by (simp add: patched_metadata_def update_conv')

lemma get_metadata_patched [simp]: "get_metadata (patched gcp p) = patched_metadata gcp p"
  by (simp add: get_metadata_def patched_def)

lemma matches_get_metadata:
  "matches_pdf_id pdf p \<Longrightarrow> map_of (get_metadata p) ''pdf_id'' = Some (JStr pdf)"
  by (auto simp: matches_pdf_id_def get_metadata_def split: option.splits)

lemma patch_mismatched_records:
  "list_all2 entry_records_write (map (entry_of pdf gcp) (filter (mismatched pdf gcp) pts))
     (map (write_of gcp) (filter (mismatched pdf gcp) pts))"
  by (simp add: list_all2_map1 list_all2_map2 list_all2_same entry_records_write_def entry_of_def
      write_of_def patched_metadata_gcp patched_metadata_other_key mismatched_def matches_get_metadata)

lemma repair_spec_records:
  "\<exists>nw nu. fst (snd (repair_spec ks (pts, ws, us))) = ws @ nw \<and>
           snd (snd (repair_spec ks (pts, ws, us))) = us @ nu \<and>
           list_all2 entry_records_write nu nw"
proof (induction ks arbitrary: pts ws us)
  case Nil
  show ?case by simp
next
  case (Cons k ks)
  obtain pdf gcp where k: "k = (pdf, gcp)" by (cases k)
  show ?case
  proof (cases "pdf = [] \<or> gcp = []")
    case True
    then show ?thesis using Cons.IH[of pts ws us] k by simp
  next
    case False
    let ?T = "filter (mismatched pdf gcp) pts"
    let ?pts1 = "map (\<lambda>p. if mismatched pdf gcp p then patched gcp p else p) pts"
    from Cons.IH[of ?pts1 "ws @ map (write_of gcp) ?T" "us @ map (entry_of pdf gcp) ?T"]
    obtain nw nu where
      a: "fst (snd (repair_spec ks (?pts1, ws @ map (write_of gcp) ?T, us @ map (entry_of pdf gcp) ?T))) = (ws @ map (write_of gcp) ?T) @ nw"
      and b: "snd (snd (repair_spec ks (?pts1, ws @ map (write_of gcp) ?T, us @ map (entry_of pdf gcp) ?T))) = (us @ map (entry_of pdf gcp) ?T) @ nu"
      and c: "list_all2 entry_records_write nu nw"
      by blast
    have "list_all2 entry_records_write (map (entry_of pdf gcp) ?T @ nu) (map (write_of gcp) ?T @ nw)"
      using patch_mismatched_records c by (rule list_all2_appendI)
    then show ?thesis
      using a b k False
      by (intro exI[of _ "map (write_of gcp) ?T @ nw"] exI[of _ "map (entry_of pdf gcp) ?T @ nu"])
         (simp add: patch_mismatched_def)
  qed
qed

text \<open>
  Claim C6. On a well-formed collection and a sheet whose column labels are distinct and
  include status, the list the driver returns is the list of the writes it made: the
  writes added to the trace and the returned entries correspond one to one, in order, each
  entry naming the point written, the identifier of that point and the file id written; so
  the result is empty exactly when nothing was written.
\<close>

theorem result_lists_the_writes:
  assumes "wf_collection (vectors w)" "''status'' \<in> set (columns (tabular w))"
    and "distinct (columns (tabular w))"
  shows "\<exists>w' us new. update_qdrant_file_ids_for_live_rows w = Some (Inr (w', us)) \<and>
           writes (vectors w') = writes (vectors w) @ new \<and>
           list_all2 entry_records_write us new \<and> (us = []) = (new = [])"
proof -
  let ?V = "repair_spec (live_keys (tabular w)) (points (vectors w), writes (vectors w), [])"
  from driver_closed[OF assms] obtain rs where run:
    "update_qdrant_file_ids_for_live_rows w =
     Some (Inr (w\<lparr>vectors := (vectors w)\<lparr>points := fst ?V, reads := reads (vectors w) @ rs,
                   writes := fst (snd ?V)\<rparr>\<rparr>, snd (snd ?V)))"
    by blast
  from repair_spec_records[of "live_keys (tabular w)" "points (vectors w)" "writes (vectors w)" "[]"]
  obtain nw nu where r: "fst (snd ?V) = writes (vectors w) @ nw" "snd (snd ?V) = nu"
    "list_all2 entry_records_write nu nw"
    by auto
  have "(nu = []) = (nw = [])" using r(3) by (auto dest: list_all2_lengthD)
  then show ?thesis using run r by auto
qed

text \<open>The hypotheses hold of the store with one stale point.\<close>

theorem result_lists_the_writes_witness:
  "wf_collection (vectors stale_world) \<and> ''status'' \<in> set (columns (tabular stale_world)) \<and>
   distinct (columns (tabular stale_world)) \<and>
   (\<exists>w' us new. update_qdrant_file_ids_for_live_rows stale_world = Some (Inr (w', us)) \<and>
           writes (vectors w') = writes (vectors stale_world) @ new \<and>
           list_all2 entry_records_write us new \<and> (us = []) = (new = []))"
  using result_lists_the_writes[of stale_world] wf_stale_world
  by (simp add: stale_world_def library_columns_def)

lemma same_but_refl: "same_but_gcp_file_id p p"
  by (simp add: same_but_gcp_file_id_def)

lemma same_but_trans:
  "same_but_gcp_file_id p p' \<Longrightarrow> same_but_gcp_file_id p' p'' \<Longrightarrow> same_but_gcp_file_id p p''"
  by (simp add: same_but_gcp_file_id_def)

lemma same_but_patched: "same_but_gcp_file_id p (patched gcp p)"
  by (simp add: same_but_gcp_file_id_def patched_metadata_other_key) (simp add: patched_def)

lemma repair_spec_frame:
  "list_all2 same_but_gcp_file_id pts (fst (repair_spec ks (pts, ws, us)))"
proof (induction ks arbitrary: pts ws us)
  case Nil
  show ?case by (simp add: list_all2_same same_but_refl)
next
  case (Cons k ks)
  obtain pdf gcp where k: "k = (pdf, gcp)" by (cases k)
  show ?case
  proof (cases "pdf = [] \<or> gcp = []")
    case True
    then show ?thesis using Cons.IH[of pts ws us] k by simp
  next
    case False
    let ?T = "filter (mismatched pdf gcp) pts"
    let ?pts1 = "map (\<lambda>p. if mismatched pdf gcp p then patched gcp p else p) pts"
    have one: "list_all2 same_but_gcp_file_id pts ?pts1"
      by (simp add: list_all2_map2 list_all2_same same_but_refl same_but_patched)
    have "list_all2 same_but_gcp_file_id pts
       (fst (repair_spec ks (?pts1, ws @ map (write_of gcp) ?T, us @ map (entry_of pdf gcp) ?T)))"
      using one Cons.IH[of ?pts1] same_but_trans
      by (rule list_all2_trans[rotated])
    then show ?thesis using k False by (simp add: patch_mismatched_def)
  qed
qed

text \<open>
  Claim C10. On a well-formed collection and a sheet whose column labels are distinct and
  include status, the driver leaves the sheet and the file store as they were; in the
  vector store every point keeps its id, the other keys of its payload and every metadata
  field but \<^verbatim>\<open>gcp_file_id\<close>.
\<close>

theorem repair_changes_only_gcp_file_id:
  assumes "wf_collection (vectors w)" "''status'' \<in> set (columns (tabular w))"
    and "distinct (columns (tabular w))"
  shows "\<exists>w' us. update_qdrant_file_ids_for_live_rows w = Some (Inr (w', us)) \<and>
           tabular w' = tabular w \<and> files w' = files w \<and>
           list_all2 same_but_gcp_file_id (points (vectors w)) (points (vectors w'))"
proof -
  let ?V = "repair_spec (live_keys (tabular w)) (points (vectors w), writes (vectors w), [])"
  from driver_closed[OF assms] obtain rs where run:
    "update_qdrant_file_ids_for_live_rows w =
     Some (Inr (w\<lparr>vectors := (vectors w)\<lparr>points := fst ?V, reads := reads (vectors w) @ rs,
                   writes := fst (snd ?V)\<rparr>\<rparr>, snd (snd ?V)))"
    by blast
  then show ?thesis
    using repair_spec_frame[of "points (vectors w)" "live_keys (tabular w)" "writes (vectors w)" "[]"]
    by simp
qed

text \<open>The hypotheses hold of the store with one stale point.\<close>

theorem repair_changes_only_gcp_file_id_witness:
  "wf_collection (vectors stale_world) \<and> ''status'' \<in> set (columns (tabular stale_world)) \<and>
   distinct (columns (tabular stale_world)) \<and>
   (\<exists>w' us. update_qdrant_file_ids_for_live_rows stale_world = Some (Inr (w', us)) \<and>
           tabular w' = tabular stale_world \<and> files w' = files stale_world \<and>
           list_all2 same_but_gcp_file_id (points (vectors stale_world)) (points (vectors w')))"
  using repair_changes_only_gcp_file_id[of stale_world] wf_stale_world
  by (simp add: stale_world_def library_columns_def)

lemma repair_rows_skip:
  assumes "repair_row cols r = Some"
  shows "repair_rows cols (pre @ r # post) st = repair_rows cols (pre @ post) st"
  using assms by (induction pre arbitrary: st) (auto split: option.splits)

lemma repair_row_blank:
  "strip (row_get cols r ''pdf_id'' '''') = [] \<or> strip (row_get cols r ''gcp_file_id'' '''') = []
   \<Longrightarrow> repair_row cols r st = Some st"
  by (auto simp: repair_row_def)

text \<open>
  Claim C9. In a sheet whose column labels are distinct, a live row whose identifier or
  file id is empty after trimming is skipped: its step leaves the collection, with the
  traces of reads and writes, and the list of entries as they were and raises nothing, and
  a run over a sheet with such a row leaves the same vector store and returns the same as
  a run over the sheet without it.
\<close>

theorem blank_live_row_is_skipped:
  assumes labels: "distinct cols"
    and live: "map_of (zip cols r) ''status'' = Some ''live''"
    and blank: "strip (row_get cols r ''pdf_id'' '''') = [] \<or> strip (row_get cols r ''gcp_file_id'' '''') = []"
  shows "repair_row cols r st = Some st \<and>
         repair_outcome (w\<lparr>tabular := \<lparr>columns = cols, rows = pre @ r # post\<rparr>\<rparr>) =
         repair_outcome (w\<lparr>tabular := \<lparr>columns = cols, rows = pre @ post\<rparr>\<rparr>)"
proof
  show "repair_row cols r st = Some st" using blank by (rule repair_row_blank)
next
  have skip: "repair_row cols r = Some"
    using blank by (intro ext) (rule repair_row_blank)
  have col: "''status'' \<in> set cols"
    using live by (auto dest!: map_of_SomeD set_zip_leftD)
  have once: "\<not> 1 < length (filter (\<lambda>c. c = ''status'') cols)"
    using labels by (rule label_once)
  let ?live = "filter (\<lambda>r. map_of (zip cols r) ''status'' = Some ''live'')"
  have rows_eq: "repair_rows cols (?live pre @ r # ?live post) (vectors w, []) =
                 repair_rows cols (?live pre @ ?live post) (vectors w, [])"
    using skip by (rule repair_rows_skip)
  show "repair_outcome (w\<lparr>tabular := \<lparr>columns = cols, rows = pre @ r # post\<rparr>\<rparr>) =
        repair_outcome (w\<lparr>tabular := \<lparr>columns = cols, rows = pre @ post\<rparr>\<rparr>)"
  proof (cases "?live pre @ ?live post = []")
    case True
    then show ?thesis
      using col once live skip
      by (simp add: repair_outcome_def update_qdrant_file_ids_for_live_rows_def live_rows_def Let_def)
  next
    case False
    then show ?thesis
      using col once live rows_eq
      by (simp add: repair_outcome_def update_qdrant_file_ids_for_live_rows_def live_rows_def Let_def
          split: option.splits)
  qed
qed

text \<open>A live row whose file id is two blanks.\<close>

theorem blank_live_row_is_skipped_witness:
  "distinct library_columns \<and>
   map_of (zip library_columns [''X'', ''  '', ''live'']) ''status'' = Some ''live'' \<and>
   (strip (row_get library_columns [''X'', ''  '', ''live''] ''pdf_id'' '''') = [] \<or>
    strip (row_get library_columns [''X'', ''  '', ''live''] ''gcp_file_id'' '''') = []) \<and>
   repair_row library_columns [''X'', ''  '', ''live''] (vectors stale_world, []) = Some (vectors stale_world, []) \<and>
   repair_outcome (stale_world\<lparr>tabular := \<lparr>columns = library_columns,
       rows = [[''X'', ''F1'', ''live'']] @ [''X'', ''  '', ''live''] # []\<rparr>\<rparr>) =
   repair_outcome (stale_world\<lparr>tabular := \<lparr>columns = library_columns, rows = [[''X'', ''F1'', ''live'']] @ []\<rparr>\<rparr>)"
  using blank_live_row_is_skipped[where cols = library_columns and r = "[''X'', ''  '', ''live'']"
      and st = "(vectors stale_world, [])" and w = stale_world and pre = "[[''X'', ''F1'', ''live'']]"
      and post = "[]"]
  by (simp add: library_columns_def row_get_def strip_def is_space_def)

lemma matches_unique: "matches_pdf_id a p \<Longrightarrow> matches_pdf_id b p \<Longrightarrow> a = b"
  by (auto simp: matches_pdf_id_def split: option.splits)

lemma keys_agree_iff:
  "keys_agree ks \<longleftrightarrow>
     (\<forall>k\<in>set ks. \<forall>k'\<in>set ks. valid_key k \<longrightarrow> valid_key k' \<longrightarrow> fst k = fst k' \<longrightarrow> snd k = snd k')"
  by (auto simp: keys_agree_def list_all_iff)

lemma patch_mismatched_settled:
  assumes "\<forall>p\<in>set pts. \<not> mismatched pdf gcp p"
  shows "patch_mismatched pdf gcp (pts, ws, us) = (pts, ws, us)"
proof -
  have "filter (mismatched pdf gcp) pts = []" using assms by (simp add: filter_empty_conv)
  moreover have "map (\<lambda>p. if mismatched pdf gcp p then patched gcp p else p) pts = pts"
    using assms by (intro map_idI) simp
  ultimately show ?thesis by (simp add: patch_mismatched_def)
qed

lemma repair_spec_settled_id:
  assumes "\<forall>k\<in>set ks. valid_key k \<longrightarrow> (\<forall>p\<in>set pts. \<not> mismatched (fst k) (snd k) p)"
  shows "repair_spec ks (pts, ws, us) = (pts, ws, us)"
  using assms
proof (induction ks)
  case Nil
  show ?case by simp
next
  case (Cons k ks)
  obtain pdf gcp where k: "k = (pdf, gcp)" by (cases k)
  show ?case
  proof (cases "pdf = [] \<or> gcp = []")
    case True
    then show ?thesis using Cons k by simp
  next
    case False
    then have "valid_key k" by (simp add: valid_key_def k)
    then have "\<forall>p\<in>set pts. \<not> mismatched pdf gcp p" using Cons.prems k by simp
    then show ?thesis using Cons k False patch_mismatched_settled by simp
  qed
qed

lemma repair_spec_settles:
  assumes "keys_agree (dn @ ks)"
    and "\<forall>k\<in>set dn. valid_key k \<longrightarrow> (\<forall>p\<in>set pts. \<not> mismatched (fst k) (snd k) p)"
  shows "\<forall>k\<in>set (dn @ ks). valid_key k \<longrightarrow>
           (\<forall>p\<in>set (fst (repair_spec ks (pts, ws, us))). \<not> mismatched (fst k) (snd k) p)"
  using assms
proof (induction ks arbitrary: dn pts ws us)
  case Nil
  then show ?case by simp
next
  case (Cons k ks)
  obtain pdf gcp where k: "k = (pdf, gcp)" by (cases k)
  have agree': "keys_agree ((dn @ [k]) @ ks)" using Cons.prems(1) by simp
  have agree: "\<And>a b. a \<in> set (dn @ k # ks) \<Longrightarrow> b \<in> set (dn @ k # ks) \<Longrightarrow> valid_key a \<Longrightarrow> valid_key b
      \<Longrightarrow> fst a = fst b \<Longrightarrow> snd a = snd b"
    using Cons.prems(1) unfolding keys_agree_iff by blast
  show ?case
  proof (cases "pdf = [] \<or> gcp = []")
    case True
    then have "\<not> valid_key k" by (auto simp: valid_key_def k)
    then have "\<forall>k'\<in>set (dn @ [k]). valid_key k' \<longrightarrow> (\<forall>p\<in>set pts. \<not> mismatched (fst k') (snd k') p)"
      using Cons.prems(2) by auto
    note settled0 = this
    have eq: "repair_spec (k # ks) (pts, ws, us) = repair_spec ks (pts, ws, us)"
      using True k by simp
    have sets: "set (dn @ k # ks) = set ((dn @ [k]) @ ks)" by simp
    show ?thesis unfolding eq sets by (rule Cons.IH[OF agree' settled0])
  next
    case False
    then have vk: "valid_key k" by (simp add: valid_key_def k)
    let ?T = "filter (mismatched pdf gcp) pts"
    let ?pts1 = "map (\<lambda>p. if mismatched pdf gcp p then patched gcp p else p) pts"
    have "\<forall>k'\<in>set (dn @ [k]). valid_key k' \<longrightarrow> (\<forall>p\<in>set ?pts1. \<not> mismatched (fst k') (snd k') p)"
    proof (intro ballI impI)
      fix k' p1 assume k': "k' \<in> set (dn @ [k])" and v': "valid_key k'" and p1: "p1 \<in> set ?pts1"
      from p1 obtain p where p: "p \<in> set pts"
        and p1_def: "p1 = (if mismatched pdf gcp p then patched gcp p else p)" by auto
      show "\<not> mismatched (fst k') (snd k') p1"
      proof (cases "mismatched pdf gcp p")
        case True
        then have m: "matches_pdf_id pdf p" by (simp add: mismatched_def)
        show ?thesis
        proof
          assume mm: "mismatched (fst k') (snd k') p1"
          then have "matches_pdf_id (fst k') p" using True p1_def by (simp add: mismatched_def)
          then have "fst k' = pdf" using m by (rule matches_unique)
          moreover have "k' \<in> set (dn @ k # ks)" "k \<in> set (dn @ k # ks)" using k' by auto
          ultimately have "snd k' = gcp"
            using agree[of k' k] v' vk k by simp
          then show False using mm True p1_def by (simp add: mismatched_def)
        qed
      next
        case False
        then have same: "p1 = p" using p1_def by simp
        show ?thesis
        proof (cases "k' = k")
          case True then show ?thesis using False same k by simp
        next
          case neq: False
          then have "k' \<in> set dn" using k' by auto
          then show ?thesis using Cons.prems(2) v' p same by auto
        qed
      qed
    qed
    note settled1 = this
    have eq: "repair_spec (k # ks) (pts, ws, us) =
        repair_spec ks (?pts1, ws @ map (write_of gcp) ?T, us @ map (entry_of pdf gcp) ?T)"
      using False k by (simp add: patch_mismatched_def)
    have sets: "set (dn @ k # ks) = set ((dn @ [k]) @ ks)" by simp
    show ?thesis unfolding eq sets by (rule Cons.IH[OF agree' settled1])
  qed
qed

text \<open>
  Claim C2, as amended. On a well-formed collection and a sheet whose column labels are
  distinct and include status: when no two live rows give one identifier two file ids
  (rows with an empty trimmed field apart), a second run right after the first writes
  nothing, changes no point and returns the empty list.
\<close>

theorem second_run_patches_nothing:
  assumes "wf_collection (vectors w)" "''status'' \<in> set (columns (tabular w))"
    and "distinct (columns (tabular w))"
    and "keys_agree (live_keys (tabular w))"
  shows "\<exists>w1 us1 w2. update_qdrant_file_ids_for_live_rows w = Some (Inr (w1, us1)) \<and>
           update_qdrant_file_ids_for_live_rows w1 = Some (Inr (w2, [])) \<and>
           points (vectors w2) = points (vectors w1) \<and> writes (vectors w2) = writes (vectors w1)"
proof -
  let ?ks = "live_keys (tabular w)"
  let ?V = "repair_spec ?ks (points (vectors w), writes (vectors w), [])"
  from driver_closed[OF assms(1,2,3)] obtain rs where run1:
    "update_qdrant_file_ids_for_live_rows w =
     Some (Inr (w\<lparr>vectors := (vectors w)\<lparr>points := fst ?V, reads := reads (vectors w) @ rs,
                   writes := fst (snd ?V)\<rparr>\<rparr>, snd (snd ?V)))"
    by blast
  let ?w1 = "w\<lparr>vectors := (vectors w)\<lparr>points := fst ?V, reads := reads (vectors w) @ rs,
                   writes := fst (snd ?V)\<rparr>\<rparr>"
  have wf1: "wf_collection (vectors ?w1)"
    using assms(1) pt_ids_repair_spec[of ?ks "points (vectors w)" "writes (vectors w)" "[]"]
    by (simp add: wf_collection_def)
  have st1: "''status'' \<in> set (columns (tabular ?w1))" using assms(2) by simp
  have ds1: "distinct (columns (tabular ?w1))" using assms(3) by simp
  have settled: "\<forall>k\<in>set ?ks. valid_key k \<longrightarrow> (\<forall>p\<in>set (fst ?V). \<not> mismatched (fst k) (snd k) p)"
    using repair_spec_settles[of "[]" ?ks "points (vectors w)" "writes (vectors w)" "[]"] assms(4) by simp
  have fixed: "repair_spec ?ks (fst ?V, fst (snd ?V), []) = (fst ?V, fst (snd ?V), [])"
    using settled by (rule repair_spec_settled_id)
  from driver_closed[OF wf1 st1 ds1] obtain rs2 where run2:
    "update_qdrant_file_ids_for_live_rows ?w1 =
     Some (Inr (?w1\<lparr>vectors := (vectors ?w1)\<lparr>points := fst ?V, reads := reads (vectors ?w1) @ rs2,
                   writes := fst (snd ?V)\<rparr>\<rparr>, []))"
    using fixed by auto
  show ?thesis
    using run1 run2 by (intro exI conjI) (assumption, assumption, simp_all)
qed

text \<open>
  The hypotheses hold of the store with two live rows of one identifier that agree on
  its file id.
\<close>

theorem second_run_patches_nothing_witness:
  "wf_collection (vectors agreeing_world) \<and> ''status'' \<in> set (columns (tabular agreeing_world)) \<and>
   distinct (columns (tabular agreeing_world)) \<and>
   live_keys (tabular agreeing_world) = [(''X'', ''F1''), (''X'', ''F1'')] \<and>
   keys_agree (live_keys (tabular agreeing_world)) \<and>
   (\<exists>w1 us1 w2. update_qdrant_file_ids_for_live_rows agreeing_world = Some (Inr (w1, us1)) \<and>
           update_qdrant_file_ids_for_live_rows w1 = Some (Inr (w2, [])) \<and>
           points (vectors w2) = points (vectors w1) \<and> writes (vectors w2) = writes (vectors w1))"
  using second_run_patches_nothing[of agreeing_world] wf_agreeing_world
  by (simp add: agreeing_world_def library_columns_def keys_agree_def live_keys_def live_rows_def
      valid_key_def row_get_def strip_def is_space_def)

text \<open>With two live rows that give X two file ids, the second run patches the point twice again.\<close>

theorem second_run_counterexample:
  "map_option (map_sum id snd) (run_twice duplicate_world) =
     Some (Inr [\<lparr>pdf_id = ''X'', point_id = 1, new_gcp_file_id = ''F1''\<rparr>,
                \<lparr>pdf_id = ''X'', point_id = 1, new_gcp_file_id = ''F2''\<rparr>])"
  by (simp add: run_twice_def duplicate_world_def driver_unfold)

section \<open>Identity of a file: failure\<close>

text \<open>
  Claim C5. When the file cannot be opened or read, or the bytes cannot be consumed by
  the identity computation, with an exception of class Exception, the function returns
  None, having logged the path and the error: no exception leaves it and no identifier
  is returned.
\<close>

theorem unreadable_file_gives_None:
  assumes "fs file_path = Inl e \<or> (\<exists>bs. fs file_path = Inr bs \<and> compute bs = Inl e)"
    and "is_Exception e"
  shows "get_pdf_id_from_file compute fs log file_path = (Inr None, log @ [LogError file_path e])"
  using assms by (auto simp: get_pdf_id_from_file_def)

text \<open>A path that does not exist.\<close>

theorem unreadable_file_gives_None_witness:
  "(missing_file ''gone.pdf'' = Inl (OSError ''No such file or directory'') \<or>
    (\<exists>bs. missing_file ''gone.pdf'' = Inr bs \<and>
          (\<lambda>bs. Inr (of_nat (length bs) :: 128 word)) bs =
            Inl (OSError ''No such file or directory''))) \<and>
   is_Exception (OSError ''No such file or directory'') \<and>
   get_pdf_id_from_file (\<lambda>bs. Inr (of_nat (length bs) :: 128 word)) missing_file [] ''gone.pdf'' =
     (Inr None, [] @ [LogError ''gone.pdf'' (OSError ''No such file or directory'')])"
  using unreadable_file_gives_None[of missing_file "''gone.pdf''" "OSError ''No such file or directory''"
      "\<lambda>bs. Inr (of_nat (length bs) :: 128 word)" "[]"]
  by (simp add: missing_file_def is_Exception_def)

section \<open>Status reconciler: the entries of the status map\<close>

lemma status_map_sheet_row:
  assumes "i < length sheet"
  shows "fst (build_status_map sheet drive qdrant) ! i =
         status_entry_of sheet drive qdrant (fst (sheet ! i)) (Some (snd (sheet ! i)))"
  using assms by (simp add: build_status_map_def Let_def nth_append)

lemma status_map_other:
  assumes "length sheet \<le> j" "j < length (fst (build_status_map sheet drive qdrant))"
  shows "\<exists>k. fst (build_status_map sheet drive qdrant) ! j = status_entry_of sheet drive qdrant k None"
  using assms by (auto simp: build_status_map_def Let_def nth_append)

lemma file_ids_match_row:
  "file_ids_match (status_entry_of sheet drive qdrant k (Some fid)) =
     (if map_of qdrant k = None then None
      else if fid = [] then Some False
      else if vector_file_ids qdrant k = [] then None
      else Some (\<forall>f\<in>set (vector_file_ids qdrant k). f = fid))"
  by (simp add: status_entry_of_def Let_def list_all_iff)

text \<open>
  The model gives the two recorded rows the flags and values that the table shows for
  them, and issues lists that begin as the table shows (the table cuts the list of row
  166 short after its first tag).
\<close>

lemma recorded_rows_reproduced:
  "map se_pdf_id (fst (build_status_map recorded_sheet recorded_drive recorded_qdrant)) = [row_166, row_221] \<and>
   map in_sheet (fst (build_status_map recorded_sheet recorded_drive recorded_qdrant)) = [True, True] \<and>
   map in_drive (fst (build_status_map recorded_sheet recorded_drive recorded_qdrant)) = [False, True] \<and>
   map in_qdrant (fst (build_status_map recorded_sheet recorded_drive recorded_qdrant)) = [True, False] \<and>
   map empty_pdf_id_in_sheet (fst (build_status_map recorded_sheet recorded_drive recorded_qdrant)) = [False, False] \<and>
   map empty_gcp_file_id_in_sheet (fst (build_status_map recorded_sheet recorded_drive recorded_qdrant)) = [True, False] \<and>
   map empty_gcp_file_id_in_qdrant (fst (build_status_map recorded_sheet recorded_drive recorded_qdrant)) = [True, False] \<and>
   map duplicate_pdf_id_in_sheet (fst (build_status_map recorded_sheet recorded_drive recorded_qdrant)) = [False, False] \<and>
   map unique_file_count (fst (build_status_map recorded_sheet recorded_drive recorded_qdrant)) = [0, 0] \<and>
   map zero_record_count (fst (build_status_map recorded_sheet recorded_drive recorded_qdrant)) = [False, False] \<and>
   map file_ids_match (fst (build_status_map recorded_sheet recorded_drive recorded_qdrant)) = [Some False, None] \<and>
   map (take 1 \<circ> issues) (fst (build_status_map recorded_sheet recorded_drive recorded_qdrant)) =
     [[''Empty gcp_file_id in Sheet''], [''Missing in Qdrant'']] \<and>
   issues (fst (build_status_map recorded_sheet recorded_drive recorded_qdrant) ! 1) = [''Missing in Qdrant'']"
  by (simp add: recorded_sheet_def recorded_qdrant_def recorded_drive_def row_166_def row_221_def
      build_status_map_def vector_file_ids_def status_entry_of_def issue_tags_def Let_def)

text \<open>
  Claim C3, as amended. In the status map the entry of a sheet row has \<^verbatim>\<open>file_ids_match\<close>
  indeterminate when the identifier has no points in the vector store, and when the
  sheet records a file id but the payloads reference none; false, not indeterminate,
  when the identifier has points and the file id of the sheet is blank; and otherwise
  true when the file id of the sheet equals every file id referenced by the payloads,
  false on any mismatch. The entry of an identifier without sheet row has it
  indeterminate.
\<close>

theorem file_ids_match_three_values:
  "(i < length sheet \<longrightarrow>
      se_pdf_id (fst (build_status_map sheet drive qdrant) ! i) = fst (sheet ! i) \<and>
      in_sheet (fst (build_status_map sheet drive qdrant) ! i) \<and>
      in_qdrant (fst (build_status_map sheet drive qdrant) ! i) = (map_of qdrant (fst (sheet ! i)) \<noteq> None) \<and>
      file_ids_match (fst (build_status_map sheet drive qdrant) ! i) =
        (if map_of qdrant (fst (sheet ! i)) = None then None
         else if snd (sheet ! i) = [] then Some False
         else if vector_file_ids qdrant (fst (sheet ! i)) = [] then None
         else Some (\<forall>f\<in>set (vector_file_ids qdrant (fst (sheet ! i))). f = snd (sheet ! i)))) \<and>
   (length sheet \<le> j \<and> j < length (fst (build_status_map sheet drive qdrant)) \<longrightarrow>
      \<not> in_sheet (fst (build_status_map sheet drive qdrant) ! j) \<and>
      file_ids_match (fst (build_status_map sheet drive qdrant) ! j) = None)"
proof (intro conjI impI)
  assume i: "i < length sheet"
  note row = status_map_sheet_row[OF i, of drive qdrant]
  show "se_pdf_id (fst (build_status_map sheet drive qdrant) ! i) = fst (sheet ! i)"
    unfolding row by (simp add: status_entry_of_def Let_def)
  show "in_sheet (fst (build_status_map sheet drive qdrant) ! i)"
    unfolding row by (simp add: status_entry_of_def Let_def)
  show "in_qdrant (fst (build_status_map sheet drive qdrant) ! i) = (map_of qdrant (fst (sheet ! i)) \<noteq> None)"
    unfolding row by (simp add: status_entry_of_def Let_def)
  show "file_ids_match (fst (build_status_map sheet drive qdrant) ! i) =
        (if map_of qdrant (fst (sheet ! i)) = None then None
         else if snd (sheet ! i) = [] then Some False
         else if vector_file_ids qdrant (fst (sheet ! i)) = [] then None
         else Some (\<forall>f\<in>set (vector_file_ids qdrant (fst (sheet ! i))). f = snd (sheet ! i)))"
    unfolding row by (rule file_ids_match_row)
next
  assume j: "length sheet \<le> j \<and> j < length (fst (build_status_map sheet drive qdrant))"
  then obtain k where k: "fst (build_status_map sheet drive qdrant) ! j = status_entry_of sheet drive qdrant k None"
    using status_map_other[of sheet j drive qdrant] by blast
  show "\<not> in_sheet (fst (build_status_map sheet drive qdrant) ! j)"
    unfolding k by (simp add: status_entry_of_def Let_def)
  show "file_ids_match (fst (build_status_map sheet drive qdrant) ! j) = None"
    unfolding k by (simp add: status_entry_of_def Let_def)
qed

text \<open>
  The first scenario of spec 8 with a file of an identifier that the sheet does not
  have: the row of X is entry 0, the identifier D entry 1.
\<close>

theorem file_ids_match_three_values_witness:
  "0 < length scenario_sheet \<and>
   se_pdf_id (fst (build_status_map scenario_sheet lone_drive scenario_qdrant) ! 0) = ''X'' \<and>
   in_sheet (fst (build_status_map scenario_sheet lone_drive scenario_qdrant) ! 0) \<and>
   in_qdrant (fst (build_status_map scenario_sheet lone_drive scenario_qdrant) ! 0) \<and>
   file_ids_match (fst (build_status_map scenario_sheet lone_drive scenario_qdrant) ! 0) = Some False \<and>
   length scenario_sheet \<le> 1 \<and>
   1 < length (fst (build_status_map scenario_sheet lone_drive scenario_qdrant)) \<and>
   \<not> in_sheet (fst (build_status_map scenario_sheet lone_drive scenario_qdrant) ! 1) \<and>
   file_ids_match (fst (build_status_map scenario_sheet lone_drive scenario_qdrant) ! 1) = None"
  using file_ids_match_three_values[of 0 scenario_sheet lone_drive scenario_qdrant 1]
  by (simp add: scenario_sheet_def scenario_qdrant_def lone_drive_def build_status_map_def Let_def)

text \<open>
  The claim as worded fails on row 166 of the recorded table: no file id in the sheet,
  none in the payloads, and the value is False, while row 221, without points, has None.
  It fails on the first scenario of spec 8 as well: no file id in the sheet, and the
  value is False.
\<close>

theorem file_ids_match_counterexample:
  "recorded_sheet ! 0 = (row_166, '''') \<and>
   map_of recorded_qdrant row_166 = Some \<lparr>record_count = 132, page_count = 133, gcp_file_ids = []\<rparr> \<and>
   map file_ids_match (fst (build_status_map recorded_sheet recorded_drive recorded_qdrant)) =
     [Some False, None] \<and>
   scenario_sheet = [(''X'', '''')] \<and>
   map file_ids_match (fst (build_status_map scenario_sheet [] scenario_qdrant)) = [Some False]"
  by (simp add: recorded_sheet_def recorded_qdrant_def recorded_drive_def row_166_def row_221_def
      scenario_sheet_def scenario_qdrant_def build_status_map_def
      vector_file_ids_def status_entry_of_def Let_def)

lemma se_pdf_id_entry [simp]: "se_pdf_id (status_entry_of sheet drive qdrant k fid) = k"
  by (simp add: status_entry_of_def Let_def)

lemma count_in_distinct:
  "distinct xs \<Longrightarrow> length (filter (\<lambda>x. x = k) xs) = (if k \<in> set xs then 1 else 0)"
  by (induction xs) (auto simp: filter_empty_conv)

lemma sheet_rows_of_absent: "k \<notin> fst ` set sheet \<Longrightarrow> filter (\<lambda>r. fst r = k) sheet = []"
  by (auto simp: filter_empty_conv)

text \<open>
  Claim C4, as amended. The status map has an entry for every identifier of the three
  sources and for no other: one for each sheet row of the identifier, or one in all when
  the identifier is in the file-store or vector-store listing only; so exactly one for
  an identifier that the sheet holds once. For an identifier that is in the sheet only,
  in one row whose identifier and file id are not blank, the entry has \<^verbatim>\<open>in_sheet\<close>
  true, \<^verbatim>\<open>in_drive\<close> and \<^verbatim>\<open>in_qdrant\<close> false and the two tags for the missing file and
  the missing points as its issues, no other.
\<close>

theorem status_map_outer_join:
  "set (map se_pdf_id (fst (build_status_map sheet drive qdrant))) =
     fst ` set sheet \<union> fst ` set drive \<union> fst ` set qdrant \<and>
   length (filter (\<lambda>e. se_pdf_id e = k) (fst (build_status_map sheet drive qdrant))) =
     (if k \<in> fst ` set sheet then length (filter (\<lambda>r. fst r = k) sheet)
      else if k \<in> fst ` set drive \<union> fst ` set qdrant then 1 else 0) \<and>
   (i < length sheet \<and> sheet ! i = (k', fid) \<and> k' \<noteq> [] \<and> fid \<noteq> [] \<and>
    length (filter (\<lambda>r. fst r = k') sheet) = 1 \<and>
    k' \<notin> fst ` set drive \<and> k' \<notin> fst ` set qdrant \<longrightarrow>
      se_pdf_id (fst (build_status_map sheet drive qdrant) ! i) = k' \<and>
      in_sheet (fst (build_status_map sheet drive qdrant) ! i) \<and>
      \<not> in_drive (fst (build_status_map sheet drive qdrant) ! i) \<and>
      \<not> in_qdrant (fst (build_status_map sheet drive qdrant) ! i) \<and>
      issues (fst (build_status_map sheet drive qdrant) ! i) =
        [''Missing in Drive'', ''Missing in Qdrant''])"
proof (intro conjI impI)
  show "set (map se_pdf_id (fst (build_status_map sheet drive qdrant))) =
     fst ` set sheet \<union> fst ` set drive \<union> fst ` set qdrant"
    by (auto simp: build_status_map_def Let_def image_iff)
next
  let ?others = "filter (\<lambda>k. k \<notin> set (map fst sheet)) (remdups (map fst drive @ map fst qdrant))"
  have cnt: "length (filter (\<lambda>e. se_pdf_id e = k) (fst (build_status_map sheet drive qdrant))) =
      length (filter (\<lambda>r. fst r = k) sheet) + length (filter (\<lambda>x. x = k) ?others)"
    by (simp add: build_status_map_def Let_def comp_def)
  have others: "length (filter (\<lambda>x. x = k) ?others) = (if k \<in> set ?others then 1 else 0)"
    by (rule count_in_distinct) simp
  show "length (filter (\<lambda>e. se_pdf_id e = k) (fst (build_status_map sheet drive qdrant))) =
     (if k \<in> fst ` set sheet then length (filter (\<lambda>r. fst r = k) sheet)
      else if k \<in> fst ` set drive \<union> fst ` set qdrant then 1 else 0)"
  proof (cases "k \<in> fst ` set sheet")
    case True
    then have "k \<notin> set ?others" by simp
    then show ?thesis using True cnt others by simp
  next
    case False
    then have "filter (\<lambda>r. fst r = k) sheet = []" by (rule sheet_rows_of_absent)
    moreover have "k \<in> set ?others \<longleftrightarrow> k \<in> fst ` set drive \<union> fst ` set qdrant"
      using False by auto
    ultimately show ?thesis using False cnt others by simp
  qed
next
  assume a: "i < length sheet \<and> sheet ! i = (k', fid) \<and> k' \<noteq> [] \<and> fid \<noteq> [] \<and>
    length (filter (\<lambda>r. fst r = k') sheet) = 1 \<and>
    k' \<notin> fst ` set drive \<and> k' \<notin> fst ` set qdrant"
  then have row: "fst (build_status_map sheet drive qdrant) ! i = status_entry_of sheet drive qdrant k' (Some fid)"
    using status_map_sheet_row[of i sheet drive qdrant] by simp
  have nd: "map_of drive k' = None" and nq: "map_of qdrant k' = None"
    using a by (simp_all add: map_of_eq_None_iff)
  show "se_pdf_id (fst (build_status_map sheet drive qdrant) ! i) = k'"
    unfolding row by simp
  show "in_sheet (fst (build_status_map sheet drive qdrant) ! i)"
    unfolding row by (simp add: status_entry_of_def Let_def)
  show "\<not> in_drive (fst (build_status_map sheet drive qdrant) ! i)"
    unfolding row using nd by (simp add: status_entry_of_def Let_def)
  show "\<not> in_qdrant (fst (build_status_map sheet drive qdrant) ! i)"
    unfolding row using nq by (simp add: status_entry_of_def Let_def)
  show "issues (fst (build_status_map sheet drive qdrant) ! i) = [''Missing in Drive'', ''Missing in Qdrant'']"
    unfolding row using a nd nq
    by (simp add: status_entry_of_def Let_def issue_tags_def vector_file_ids_def)
qed

text \<open>A sheet row of X with its file id, and a file of an identifier that the sheet does not have.\<close>

theorem status_map_outer_join_witness:
  "0 < length lone_sheet \<and> lone_sheet ! 0 = (''X'', ''F1'') \<and> ''X'' \<noteq> [] \<and> ''F1'' \<noteq> [] \<and>
   length (filter (\<lambda>r. fst r = ''X'') lone_sheet) = 1 \<and>
   ''X'' \<notin> fst ` set lone_drive \<and> ''X'' \<notin> fst ` set ([] :: (string \<times> vector_aggregate) list) \<and>
   se_pdf_id (fst (build_status_map lone_sheet lone_drive []) ! 0) = ''X'' \<and>
   in_sheet (fst (build_status_map lone_sheet lone_drive []) ! 0) \<and>
   \<not> in_drive (fst (build_status_map lone_sheet lone_drive []) ! 0) \<and>
   \<not> in_qdrant (fst (build_status_map lone_sheet lone_drive []) ! 0) \<and>
   issues (fst (build_status_map lone_sheet lone_drive []) ! 0) = [''Missing in Drive'', ''Missing in Qdrant''] \<and>
   length (filter (\<lambda>e. se_pdf_id e = ''D'') (fst (build_status_map lone_sheet lone_drive []))) = 1"
  using status_map_outer_join[of lone_sheet lone_drive "[]" "''D''" 0 "''X''" "''F1''"]
  by (simp add: lone_sheet_def lone_drive_def)

text \<open>
  The claim as worded fails on the second scenario of spec 8: the two sheet rows that
  share Y have an entry each, both flagged. It fails as well for an identifier of the
  sheet alone whose file id is blank, and for a sheet row whose identifier is blank:
  each has a third tag.
\<close>

theorem status_map_counterexample:
  "map se_pdf_id (fst (build_status_map shared_sheet shared_drive shared_qdrant)) = [''Y'', ''Y''] \<and>
   map duplicate_pdf_id_in_sheet (fst (build_status_map shared_sheet shared_drive shared_qdrant)) =
     [True, True] \<and>
   map in_sheet (fst (build_status_map [(''X'', '''')] [] [])) = [True] \<and>
   map in_drive (fst (build_status_map [(''X'', '''')] [] [])) = [False] \<and>
   map in_qdrant (fst (build_status_map [(''X'', '''')] [] [])) = [False] \<and>
   map issues (fst (build_status_map [(''X'', '''')] [] [])) =
     [[''Empty gcp_file_id in Sheet'', ''Missing in Drive'', ''Missing in Qdrant'']] \<and>
   map issues (fst (build_status_map [('''', ''F1'')] [] [])) =
     [[''Empty pdf_id in Sheet'', ''Missing in Drive'', ''Missing in Qdrant'']]"
  by (simp add: shared_sheet_def shared_drive_def shared_qdrant_def build_status_map_def
      status_entry_of_def Let_def issue_tags_def vector_file_ids_def)

section \<open>Deletion driver: a second run\<close>

lemma foldl_delete_row_tabular:
  "columns (tabular (foldl delete_row w rs)) = columns (tabular w) \<and>
   rows (tabular (foldl delete_row w rs)) = filter (\<lambda>x. x \<notin> set rs) (rows (tabular w))"
proof (induction rs arbitrary: w)
  case Nil
  show ?case by simp
next
  case (Cons r rs)
  have "columns (tabular (delete_row w r)) = columns (tabular w)"
    and "rows (tabular (delete_row w r)) = filter (\<lambda>x. x \<noteq> r) (rows (tabular w))"
    by (simp_all add: delete_row_def Let_def removeAll_filter_not_eq) metis
  then show ?case using Cons.IH[of "delete_row w r"] by (auto intro: filter_cong)
qed

lemma tagged_rows_after_delete: "tagged_rows (tabular (fst (delete_tagged w))) = []"
proof -
  let ?t = "tagged_rows (tabular w)"
  have "tagged_rows (tabular (foldl delete_row w ?t)) =
        filter (\<lambda>r. map_of (zip (columns (tabular w)) r) ''status'' = Some deletion_tag)
          (filter (\<lambda>x. x \<notin> set ?t) (rows (tabular w)))"
    using foldl_delete_row_tabular[of w ?t] by (simp add: tagged_rows_def)
  also have "\<dots> = []"
    by (auto simp: filter_empty_conv tagged_rows_def)
  finally show ?thesis by (simp add: delete_tagged_def Let_def)
qed

text \<open>
  Claim C7. A second run of the deletion driver on the stores as the first run left them
  deletes no row, raises nothing and leaves the three stores as they are.
\<close>

theorem delete_tagged_twice:
  "delete_tagged (fst (delete_tagged w)) = (fst (delete_tagged w), [])"
  using tagged_rows_after_delete[of w] by (simp add: delete_tagged_def[of "fst (delete_tagged w)"] Let_def)

end
